theory Spec2Isabelle
  imports Main "HOL-Library.Sublist"
begin

section \<open>Strings of the engine\<close>

text \<open>
  The engine of \<^verbatim>\<open>server/accessibility-engine.ts\<close> works on JavaScript strings, which are
  sequences of UTF-16 code units. A string is modelled as the list of its code units, so
  that \<open>length\<close> is the \<^verbatim>\<open>.length\<close> of the source and every regular expression class
  sees the unit the source's (non-unicode) patterns see.
\<close>

type_synonym cu = nat
type_synonym jstring = "cu list"

definition asc :: "string \<Rightarrow> jstring" where
  "asc s = map of_char s"

text \<open>White space of \<^verbatim>\<open>\s\<close> and of \<^verbatim>\<open>String.prototype.trim\<close> (WhiteSpace and LineTerminator).\<close>

definition isSpace :: "cu \<Rightarrow> bool" where
  "isSpace c \<longleftrightarrow>
     (9 \<le> c \<and> c \<le> 13) \<or> c = 32 \<or> c = 160 \<or> c = 5760 \<or> (8192 \<le> c \<and> c \<le> 8202) \<or>
     c = 8232 \<or> c = 8233 \<or> c = 8239 \<or> c = 8287 \<or> c = 12288 \<or> c = 65279"

definition isDigit :: "cu \<Rightarrow> bool" where
  "isDigit c \<longleftrightarrow> 48 \<le> c \<and> c \<le> 57"

text \<open>The word characters of \<^verbatim>\<open>\b\<close>: \<^verbatim>\<open>[A-Za-z0-9_]\<close>.\<close>

definition isWord :: "cu \<Rightarrow> bool" where
  "isWord c \<longleftrightarrow> (65 \<le> c \<and> c \<le> 90) \<or> (97 \<le> c \<and> c \<le> 122) \<or> isDigit c \<or> c = 95"

text \<open>
  Canonicalize of the \<^verbatim>\<open>i\<close> flag (non-unicode mode). Every pattern character of the
  engine is an ASCII character or an ideograph without case; a code unit above 127 never
  canonicalises to an ASCII one, so for these patterns only the ASCII letters have a second
  spelling.
\<close>

definition canon :: "cu \<Rightarrow> cu" where
  "canon c = (if 97 \<le> c \<and> c \<le> 122 then c - 32 else c)"

section \<open>Regular expressions\<close>

text \<open>
  The patterns of the engine use literals, classes, \<^verbatim>\<open>\s \d \b ^ $\<close>, alternation, groups
  and the quantifiers \<^verbatim>\<open>* + *?\<close>, the quantifiers always on a single-character atom. The
  matcher is the backtracking matcher of ECMAScript written with continuations: it tries
  the alternatives in the order of the pattern and answers with the first success.
\<close>

datatype citem = CU cu | CSpace | CNotSpace | CDigit

datatype atom = Lit cu | Cls "citem list" | NCls "citem list"

datatype re =
    At atom
  | Star atom
  | Plus atom
  | LazyStar atom
  | Seq re re
  | Alt re re
  | Grp nat re
  | WordB
  | Bol
  | Eol
  | Eps

type_synonym caps = "nat \<Rightarrow> jstring option"

fun in_item :: "bool \<Rightarrow> citem \<Rightarrow> cu \<Rightarrow> bool" where
  "in_item ic (CU c) x = (if ic then canon x = canon c else x = c)"
| "in_item ic CSpace x = isSpace x"
| "in_item ic CNotSpace x = (\<not> isSpace x)"
| "in_item ic CDigit x = isDigit x"

fun amatch :: "bool \<Rightarrow> atom \<Rightarrow> cu \<Rightarrow> bool" where
  "amatch ic (Lit c) x = (if ic then canon x = canon c else x = c)"
| "amatch ic (Cls its) x = list_ex (\<lambda>it. in_item ic it x) its"
| "amatch ic (NCls its) x = (\<not> list_ex (\<lambda>it. in_item ic it x) its)"

fun greedy :: "bool \<Rightarrow> atom \<Rightarrow> cu option \<Rightarrow> jstring \<Rightarrow> (cu option \<Rightarrow> jstring \<Rightarrow> 'a option) \<Rightarrow> 'a option" where
  "greedy ic a p [] k = k p []"
| "greedy ic a p (x # xs) k =
     (if amatch ic a x
      then (case greedy ic a (Some x) xs k of Some r \<Rightarrow> Some r | None \<Rightarrow> k p (x # xs))
      else k p (x # xs))"

fun lazy :: "bool \<Rightarrow> atom \<Rightarrow> cu option \<Rightarrow> jstring \<Rightarrow> (cu option \<Rightarrow> jstring \<Rightarrow> 'a option) \<Rightarrow> 'a option" where
  "lazy ic a p [] k = k p []"
| "lazy ic a p (x # xs) k =
     (case k p (x # xs) of Some r \<Rightarrow> Some r
      | None \<Rightarrow> if amatch ic a x then lazy ic a (Some x) xs k else None)"

definition wordAt :: "cu option \<Rightarrow> bool" where
  "wordAt p = (case p of None \<Rightarrow> False | Some c \<Rightarrow> isWord c)"

definition nextOf :: "jstring \<Rightarrow> cu option" where
  "nextOf s = (case s of [] \<Rightarrow> None | x # _ \<Rightarrow> Some x)"

text \<open>
  \<open>rmatch ic r p s c k\<close>: match \<open>r\<close> at the front of \<open>s\<close>, the code unit before it being
  \<open>p\<close> (\<open>None\<close> at the start of the input), with the captures \<open>c\<close> so far; \<open>k\<close> is what
  remains to be matched.
\<close>

fun rmatch :: "bool \<Rightarrow> re \<Rightarrow> cu option \<Rightarrow> jstring \<Rightarrow> caps \<Rightarrow>
    (cu option \<Rightarrow> jstring \<Rightarrow> caps \<Rightarrow> 'a option) \<Rightarrow> 'a option" where
  "rmatch ic (At a) p s c k =
     (case s of [] \<Rightarrow> None | x # xs \<Rightarrow> if amatch ic a x then k (Some x) xs c else None)"
| "rmatch ic (Star a) p s c k = greedy ic a p s (\<lambda>p' s'. k p' s' c)"
| "rmatch ic (Plus a) p s c k =
     (case s of [] \<Rightarrow> None
      | x # xs \<Rightarrow> if amatch ic a x then greedy ic a (Some x) xs (\<lambda>p' s'. k p' s' c) else None)"
| "rmatch ic (LazyStar a) p s c k = lazy ic a p s (\<lambda>p' s'. k p' s' c)"
| "rmatch ic (Seq r1 r2) p s c k = rmatch ic r1 p s c (\<lambda>p' s' c'. rmatch ic r2 p' s' c' k)"
| "rmatch ic (Alt r1 r2) p s c k =
     (case rmatch ic r1 p s c k of Some x \<Rightarrow> Some x | None \<Rightarrow> rmatch ic r2 p s c k)"
| "rmatch ic (Grp n r) p s c k =
     rmatch ic r p s c (\<lambda>p' s' c'. k p' s' (c'(n \<mapsto> take (length s - length s') s)))"
| "rmatch ic WordB p s c k = (if wordAt p \<noteq> wordAt (nextOf s) then k p s c else None)"
| "rmatch ic Bol p s c k = (if p = None then k p s c else None)"
| "rmatch ic Eol p s c k = (if s = [] then k p s c else None)"
| "rmatch ic Eps p s c k = k p s c"

text \<open>A literal word of a pattern, and the sequence of several parts.\<close>

fun lit :: "jstring \<Rightarrow> re" where
  "lit [] = Eps"
| "lit [x] = At (Lit x)"
| "lit (x # xs) = Seq (At (Lit x)) (lit xs)"

fun seqs :: "re list \<Rightarrow> re" where
  "seqs [] = Eps"
| "seqs [r] = r"
| "seqs (r # rs) = Seq r (seqs rs)"

fun alts :: "re list \<Rightarrow> re" where
  "alts [] = Eps"
| "alts [r] = r"
| "alts (r # rs) = Alt r (alts rs)"

text \<open>
  One \<^verbatim>\<open>exec\<close>: the first position of \<open>s\<close> at which the pattern matches. The answer is the
  text before the match, the match, the text after it and the captures.
\<close>

fun search :: "re \<Rightarrow> bool \<Rightarrow> cu option \<Rightarrow> jstring \<Rightarrow> (jstring \<times> jstring \<times> jstring \<times> caps) option" where
  "search r ic p [] =
     (case rmatch ic r p [] (\<lambda>_. None) (\<lambda>p' s' c'. Some (s', c')) of
        Some (s', c') \<Rightarrow> Some ([], [], s', c')
      | None \<Rightarrow> None)"
| "search r ic p (x # xs) =
     (case rmatch ic r p (x # xs) (\<lambda>_. None) (\<lambda>p' s' c'. Some (s', c')) of
        Some (s', c') \<Rightarrow> Some ([], take (length (x # xs) - length s') (x # xs), s', c')
      | None \<Rightarrow>
          (case search r ic (Some x) xs of None \<Rightarrow> None
           | Some (pre, m, post, c) \<Rightarrow> Some (x # pre, m, post, c)))"


text \<open>
  All the matches of a pattern with the \<^verbatim>\<open>g\<close> flag, as \<^verbatim>\<open>String.prototype.replace\<close>
  collects them before it calls the replacer: each segment is the text between the
  previous match and this one, the match, its captures, the whole text before the match
  and the whole text after it. After an empty match the scan moves one code unit on.
\<close>

type_synonym seg = "jstring \<times> jstring \<times> caps \<times> jstring \<times> jstring"

definition lastOpt :: "jstring \<Rightarrow> cu option" where
  "lastOpt s = (if s = [] then None else Some (last s))"

fun consGap :: "cu \<Rightarrow> seg list \<times> jstring \<Rightarrow> seg list \<times> jstring" where
  "consGap x ([], rest) = ([], x # rest)"
| "consGap x ((gap, m, c, b, a) # segs, rest) = ((x # gap, m, c, b, a) # segs, rest)"

lemma greedy_sound:
  "greedy ic a p s k = Some x \<Longrightarrow> \<exists>p' s'. suffix s' s \<and> k p' s' = Some x"
proof (induction s arbitrary: p)
  case Nil
  then show ?case by auto
next
  case (Cons y ys)
  show ?case
  proof (cases "amatch ic a y \<and> greedy ic a (Some y) ys k \<noteq> None")
    case True
    then have "greedy ic a (Some y) ys k = Some x" using Cons.prems by auto
    from Cons.IH[OF this] obtain p' s' where "suffix s' ys" "k p' s' = Some x" by blast
    then show ?thesis by (meson suffix_Cons)
  next
    case False
    then have "k p (y # ys) = Some x" using Cons.prems by (auto split: if_splits option.splits)
    then show ?thesis by blast
  qed
qed

lemma lazy_sound:
  "lazy ic a p s k = Some x \<Longrightarrow> \<exists>p' s'. suffix s' s \<and> k p' s' = Some x"
proof (induction s arbitrary: p)
  case Nil
  then show ?case by auto
next
  case (Cons y ys)
  show ?case
  proof (cases "k p (y # ys)")
    case None
    then have "lazy ic a (Some y) ys k = Some x" using Cons.prems by (auto split: if_splits)
    from Cons.IH[OF this] obtain p' s' where "suffix s' ys" "k p' s' = Some x" by blast
    then show ?thesis by (meson suffix_Cons)
  next
    case (Some z)
    then have "k p (y # ys) = Some x" using Cons.prems by auto
    then show ?thesis by blast
  qed
qed

lemma rmatch_sound:
  "rmatch ic r p s c k = Some x \<Longrightarrow> \<exists>p' s' c'. suffix s' s \<and> k p' s' c' = Some x"
proof (induction r arbitrary: p s c k)
  case (At a)
  then show ?case by (auto split: list.splits if_splits intro: suffix_ConsI)
next
  case (Star a)
  then show ?case using greedy_sound[of ic a p s "\<lambda>p' s'. k p' s' c" x] by auto
next
  case (Plus a)
  then obtain y ys where s: "s = y # ys" and g: "greedy ic a (Some y) ys (\<lambda>p' s'. k p' s' c) = Some x"
    by (auto split: list.splits if_splits)
  from greedy_sound[OF g] show ?case unfolding s by (meson suffix_Cons)
next
  case (LazyStar a)
  then show ?case using lazy_sound[of ic a p s "\<lambda>p' s'. k p' s' c" x] by auto
next
  case (Seq r1 r2)
  from Seq.prems have "rmatch ic r1 p s c (\<lambda>p' s' c'. rmatch ic r2 p' s' c' k) = Some x" by simp
  from Seq.IH(1)[OF this] obtain p1 s1 c1 where 1: "suffix s1 s" "rmatch ic r2 p1 s1 c1 k = Some x"
    by blast
  from Seq.IH(2)[OF 1(2)] obtain p2 s2 c2 where 2: "suffix s2 s1" "k p2 s2 c2 = Some x" by blast
  with 1 show ?case by (meson suffix_order.trans)
next
  case (Alt r1 r2)
  then show ?case by (auto split: option.splits)
next
  case (Grp n r)
  from Grp.prems
  have "rmatch ic r p s c (\<lambda>p' s' c'. k p' s' (c'(n \<mapsto> take (length s - length s') s))) = Some x"
    by simp
  from Grp.IH[OF this] show ?case by blast
next
  case WordB
  then show ?case by (auto split: if_splits)
next
  case Bol
  then show ?case by (auto split: if_splits)
next
  case Eol
  then show ?case by (auto split: if_splits)
next
  case Eps
  then show ?case by auto
qed

lemma search_sound:
  "search r ic p s = Some (pre, m, post, c) \<Longrightarrow> s = pre @ m @ post"
proof (induction s arbitrary: p pre)
  case Nil
  then obtain s' where "rmatch ic r p [] (\<lambda>_. None) (\<lambda>p' s' c'. Some (s', c')) = Some (s', c)"
    and eq: "pre = []" "m = []" "post = s'"
    by (auto split: option.splits)
  from rmatch_sound[OF this(1)] eq show ?case by auto
next
  case (Cons y ys)
  show ?case
  proof (cases "rmatch ic r p (y # ys) (\<lambda>_. None) (\<lambda>p' s' c'. Some (s', c'))")
    case None
    with Cons.prems obtain pre' where "search r ic (Some y) ys = Some (pre', m, post, c)" "pre = y # pre'"
      by (auto split: option.splits)
    with Cons.IH show ?thesis by auto
  next
    case (Some z)
    obtain s' c' where z: "z = (s', c')" by (cases z)
    from rmatch_sound[OF Some] z have suf: "suffix s' (y # ys)" by auto
    from Cons.prems Some z have eq: "pre = []" "m = take (length (y # ys) - length s') (y # ys)" "post = s'"
      by auto
    from suf obtain u where "y # ys = u @ s'" by (auto simp: suffix_def)
    then show ?thesis using eq by auto
  qed
qed

function scan :: "re \<Rightarrow> bool \<Rightarrow> jstring \<Rightarrow> jstring \<Rightarrow> seg list \<times> jstring" where
  "scan r ic bef s =
     (case search r ic (lastOpt bef) s of
        None \<Rightarrow> ([], s)
      | Some (pre, m, post, c) \<Rightarrow>
          (if m = [] then
             (case post of
                [] \<Rightarrow> ([(pre, m, c, bef @ pre, post)], [])
              | x # xs \<Rightarrow>
                  (case consGap x (scan r ic (bef @ pre @ [x]) xs) of
                     (segs, rest) \<Rightarrow> ((pre, m, c, bef @ pre, post) # segs, rest)))
           else
             (case scan r ic (bef @ pre @ m) post of
                (segs, rest) \<Rightarrow> ((pre, m, c, bef @ pre, post) # segs, rest))))"
  by pat_completeness auto
termination
proof (relation "measure (\<lambda>(r, ic, bef, s). length s)", goal_cases)
  case 1
  then show ?case by simp
next
  case (2 r ic bef s x2 pre y m z post c x xs)
  then have "s = pre @ m @ post" using search_sound by metis
  with 2 show ?case by simp
next
  case (3 r ic bef s x2 pre y m z post c)
  then have "s = pre @ m @ post" using search_sound by metis
  with 3 show ?case by simp
qed

declare scan.simps [simp del]


section \<open>String operations of the host language\<close>

definition js_trim :: "jstring \<Rightarrow> jstring" where
  "js_trim s = rev (dropWhile isSpace (rev (dropWhile isSpace s)))"

text \<open>\<^verbatim>\<open>s.split(c)\<close> for a separator of one code unit, and \<^verbatim>\<open>xs.join(sep)\<close>.\<close>

fun splitOn :: "cu \<Rightarrow> jstring \<Rightarrow> jstring list" where
  "splitOn c [] = [[]]"
| "splitOn c (x # xs) =
     (if x = c then [] # splitOn c xs
      else (case splitOn c xs of [] \<Rightarrow> [[x]] | y # ys \<Rightarrow> (x # y) # ys))"

fun js_join :: "jstring \<Rightarrow> jstring list \<Rightarrow> jstring" where
  "js_join sep [] = []"
| "js_join sep [x] = x"
| "js_join sep (x # y # ys) = x @ sep @ js_join sep (y # ys)"

text \<open>\<^verbatim>\<open>s.indexOf(t)\<close>: \<open>None\<close> is the source's \<open>-1\<close>.\<close>

fun indexOf :: "jstring \<Rightarrow> jstring \<Rightarrow> nat option" where
  "indexOf [] t = (if t = [] then Some 0 else None)"
| "indexOf (x # xs) t =
     (if prefix t (x # xs) then Some 0
      else (case indexOf xs t of None \<Rightarrow> None | Some i \<Rightarrow> Some (Suc i)))"

definition includes_str :: "jstring \<Rightarrow> jstring \<Rightarrow> bool" where
  "includes_str s t \<longleftrightarrow> indexOf s t \<noteq> None"

text \<open>
  GetSubstitution for a replacement given as a string, for a pattern without capture
  groups (every pattern the engine replaces by a string is one): \<^verbatim>\<open>$$\<close> is a dollar,
  \<^verbatim>\<open>$&\<close> the match, \<^verbatim>\<open>$`\<close> the text before it, \<^verbatim>\<open>$'\<close> the text after it, and any
  other dollar stands for itself.
\<close>

fun getSubstitution :: "jstring \<Rightarrow> jstring \<Rightarrow> jstring \<Rightarrow> jstring \<Rightarrow> jstring" where
  "getSubstitution m b a [] = []"
| "getSubstitution m b a [x] = [x]"
| "getSubstitution m b a (x # y # zs) =
     (if x = 36 then
        (if y = 36 then 36 # getSubstitution m b a zs
         else if y = 38 then m @ getSubstitution m b a zs
         else if y = 96 then b @ getSubstitution m b a zs
         else if y = 39 then a @ getSubstitution m b a zs
         else 36 # getSubstitution m b a (y # zs))
      else x # getSubstitution m b a (y # zs))"

text \<open>\<^verbatim>\<open>s.replace(re, f)\<close> without and with the \<^verbatim>\<open>g\<close> flag; \<open>f\<close> sees the segment.\<close>

definition replaceFirst :: "re \<Rightarrow> bool \<Rightarrow> (seg \<Rightarrow> jstring) \<Rightarrow> jstring \<Rightarrow> jstring" where
  "replaceFirst r ic f s =
     (case search r ic None s of
        None \<Rightarrow> s
      | Some (pre, m, post, c) \<Rightarrow> pre @ f (pre, m, c, pre, post) @ post)"

fun fillSegs :: "(seg \<Rightarrow> jstring) \<Rightarrow> seg list \<Rightarrow> jstring" where
  "fillSegs f [] = []"
| "fillSegs f ((gap, m, c, b, a) # segs) = gap @ f (gap, m, c, b, a) @ fillSegs f segs"

definition replaceAll :: "re \<Rightarrow> bool \<Rightarrow> (seg \<Rightarrow> jstring) \<Rightarrow> jstring \<Rightarrow> jstring" where
  "replaceAll r ic f s = (case scan r ic [] s of (segs, rest) \<Rightarrow> fillSegs f segs @ rest)"

text \<open>The replacer for a replacement string, and \<^verbatim>\<open>re.test(s)\<close>.\<close>

fun byString :: "jstring \<Rightarrow> seg \<Rightarrow> jstring" where
  "byString repl (gap, m, c, b, a) = getSubstitution m b a repl"

definition test :: "re \<Rightarrow> bool \<Rightarrow> jstring \<Rightarrow> bool" where
  "test r ic s \<longleftrightarrow> search r ic None s \<noteq> None"

text \<open>\<^verbatim>\<open>s.replace(t, repl)\<close> for a string \<open>t\<close>: its first occurrence.\<close>

definition replaceStr :: "jstring \<Rightarrow> jstring \<Rightarrow> jstring \<Rightarrow> jstring" where
  "replaceStr t repl s =
     (case indexOf s t of
        None \<Rightarrow> s
      | Some i \<Rightarrow>
          take i s @ getSubstitution t (take i s) (drop (i + length t) s) repl
            @ drop (i + length t) s)"

section \<open>Values of the configuration\<close>

text \<open>
  \<^verbatim>\<open>repairHtml(html, config?: any)\<close>: the route hands over whatever \<^verbatim>\<open>JSON.parse\<close> made
  of the request's \<^verbatim>\<open>config\<close>, or \<^verbatim>\<open>undefined\<close>. A number is represented by its
  \<^verbatim>\<open>Number::toString\<close> text (so \<open>0\<close> and \<open>-0\<close> are \<open>JNum ''0''\<close>), an object by the list of
  its own properties.
\<close>

datatype jsval =
    JUndefined
  | JNull
  | JBool bool
  | JNum jstring
  | JStr jstring
  | JArr "jsval list"
  | JObj "(jstring \<times> jsval) list"

datatype error = TypeError

fun truthy :: "jsval \<Rightarrow> bool" where
  "truthy JUndefined = False"
| "truthy JNull = False"
| "truthy (JBool b) = b"
| "truthy (JNum t) = (t \<noteq> asc ''0'')"
| "truthy (JStr s) = (s \<noteq> [])"
| "truthy (JArr xs) = True"
| "truthy (JObj kvs) = True"

text \<open>\<^verbatim>\<open>v?.name\<close>, for the property names the engine reads (none is inherited).\<close>

fun getp :: "jsval \<Rightarrow> jstring \<Rightarrow> jsval" where
  "getp (JObj kvs) name = (case map_of kvs name of None \<Rightarrow> JUndefined | Some v \<Rightarrow> v)"
| "getp v name = JUndefined"

text \<open>\<^verbatim>\<open>a ?? b\<close> and \<^verbatim>\<open>a || b\<close>.\<close>

definition nullish :: "jsval \<Rightarrow> jsval \<Rightarrow> jsval" where
  "nullish a b = (if a = JUndefined \<or> a = JNull then b else a)"

definition orElse :: "jsval \<Rightarrow> jsval \<Rightarrow> jsval" where
  "orElse a b = (if truthy a then a else b)"

text \<open>
  ToString, as a template literal and \<^verbatim>\<open>+\<close> apply it. An array joins its elements
  with commas (\<^verbatim>\<open>null\<close> and \<^verbatim>\<open>undefined\<close> as the empty string); an object is
  \<^verbatim>\<open>[object Object]\<close> unless it has a property \<^verbatim>\<open>toString\<close> of its own, which is not
  callable: then the conversion throws.
\<close>

fun toStringJS :: "jsval \<Rightarrow> error + jstring"
  and elemsToString :: "jsval list \<Rightarrow> error + jstring" where
  "toStringJS JUndefined = Inr (asc ''undefined'')"
| "toStringJS JNull = Inr (asc ''null'')"
| "toStringJS (JBool b) = Inr (if b then asc ''true'' else asc ''false'')"
| "toStringJS (JNum t) = Inr t"
| "toStringJS (JStr s) = Inr s"
| "toStringJS (JArr xs) = elemsToString xs"
| "toStringJS (JObj kvs) =
     (if map_of kvs (asc ''toString'') \<noteq> None then Inl TypeError
      else Inr (asc ''[object Object]''))"
| "elemsToString [] = Inr []"
| "elemsToString (x # xs) =
     (case (if x = JNull \<or> x = JUndefined then Inr [] else toStringJS x) of
        Inl e \<Rightarrow> Inl e
      | Inr a \<Rightarrow>
          (if xs = [] then Inr a
           else (case elemsToString xs of Inl e \<Rightarrow> Inl e | Inr b \<Rightarrow> Inr (a @ 44 # b))))"

text \<open>
  \<^verbatim>\<open>placeholder.includes(t)\<close>: a string searches itself, an array its elements; any other
  value has no such method.
\<close>

fun includesJS :: "jsval \<Rightarrow> jstring \<Rightarrow> error + bool" where
  "includesJS (JStr s) t = Inr (includes_str s t)"
| "includesJS (JArr xs) t = Inr (JStr t \<in> set xs)"
| "includesJS v t = Inl TypeError"

text \<open>
  ToPrimitive, as the division \<^verbatim>\<open>px / basePx\<close> applies it on the way to a number. A
  primitive value is kept. An array or an object ends up in its \<^verbatim>\<open>toString\<close> (their
  \<^verbatim>\<open>valueOf\<close> returns the value itself, or is a property of its own and not callable), so
  the conversion gives the string ToString gives, and throws where ToString throws.
\<close>

fun toPrimitiveJS :: "jsval \<Rightarrow> error + jsval" where
  "toPrimitiveJS (JArr xs) = (case toStringJS (JArr xs) of Inl e \<Rightarrow> Inl e | Inr s \<Rightarrow> Inr (JStr s))"
| "toPrimitiveJS (JObj kvs) = (case toStringJS (JObj kvs) of Inl e \<Rightarrow> Inl e | Inr s \<Rightarrow> Inr (JStr s))"
| "toPrimitiveJS v = Inr v"

text \<open>
  What the model takes from the host as it is: the Unicode case mapping of
  \<^verbatim>\<open>toLowerCase\<close>, and the floating-point conversions \<^verbatim>\<open>emFromPx(parseFloat(n), basePx)\<close>
  for a primitive \<^verbatim>\<open>basePx\<close>, \<^verbatim>\<open>emFromPt(parseFloat(n))\<close> and the \<^verbatim>\<open>rem\<close> rounding, each from
  the matched digits \<open>n\<close> to the text it returns.
\<close>

record host =
  toLowerCase :: "jstring \<Rightarrow> jstring"
  emFromPx :: "jstring \<Rightarrow> jsval \<Rightarrow> jstring"
  emFromPt :: "jstring \<Rightarrow> jstring"
  emFromRem :: "jstring \<Rightarrow> jstring"

section \<open>Rule switches\<close>

definition ruleEnabled :: "jsval \<Rightarrow> jstring \<Rightarrow> bool" where
  "ruleEnabled config ruleId =
     (let rules = getp config (asc ''rules'') in
      if \<not> truthy rules then True
      else
        let disabled = (case getp rules (asc ''disabled'') of JArr xs \<Rightarrow> xs | _ \<Rightarrow> []) in
        if JStr ruleId \<in> set disabled then False
        else (case getp rules (asc ''enabled'') of JArr xs \<Rightarrow> JStr ruleId \<in> set xs | _ \<Rightarrow> True))"


section \<open>Helpers of the engine\<close>

text \<open>
  \<^verbatim>\<open>stripTags\<close>: comments, scripts, styles and tags go, \<^verbatim>\<open>&nbsp;\<close> becomes a blank, runs of
  white space collapse, and the result is trimmed. The patterns, in the source's order:
  \<^verbatim>\<open>/<!--[\s\S]*?-->/g\<close>, \<^verbatim>\<open>/<script[\s\S]*?<\/script>/gi\<close>, \<^verbatim>\<open>/<style[\s\S]*?<\/style>/gi\<close>,
  \<^verbatim>\<open>/<[^>]+>/g\<close>, \<^verbatim>\<open>/&nbsp;/gi\<close>, \<^verbatim>\<open>/\s+/g\<close>.
\<close>

definition anyCU :: atom where
  "anyCU = Cls [CSpace, CNotSpace]"

definition commentRe :: re where
  "commentRe = seqs [lit (asc ''<!--''), LazyStar anyCU, lit (asc ''-->'')]"

definition scriptRe :: re where
  "scriptRe = seqs [lit (asc ''<script''), LazyStar anyCU, lit (asc ''</script>'')]"

definition styleBlockRe :: re where
  "styleBlockRe = seqs [lit (asc ''<style''), LazyStar anyCU, lit (asc ''</style>'')]"

definition anyTagRe :: re where
  "anyTagRe = seqs [At (Lit 60), Plus (NCls [CU 62]), At (Lit 62)]"

definition nbspRe :: re where
  "nbspRe = lit (asc ''&nbsp;'')"

definition spacesRe :: re where
  "spacesRe = Plus (Cls [CSpace])"

definition stripTags :: "jstring \<Rightarrow> jstring" where
  "stripTags html =
     js_trim
       (replaceAll spacesRe False (byString (asc '' ''))
         (replaceAll nbspRe True (byString (asc '' ''))
           (replaceAll anyTagRe False (byString [])
             (replaceAll styleBlockRe True (byString [])
               (replaceAll scriptRe True (byString [])
                 (replaceAll commentRe False (byString []) html))))))"

text \<open>
  \<^verbatim>\<open>v.replace(re, (_, n) => { changed = true; return f(n) })\<close>: the new text, and whether the
  replacer ran. \<open>cap c n\<close> is \<^verbatim>\<open>m[n] ?? ""\<close>.
\<close>

definition cap :: "caps \<Rightarrow> nat \<Rightarrow> jstring" where
  "cap c n = (case c n of None \<Rightarrow> [] | Some x \<Rightarrow> x)"

definition replaceAllC :: "re \<Rightarrow> bool \<Rightarrow> (jstring \<Rightarrow> jstring) \<Rightarrow> jstring \<Rightarrow> jstring \<times> bool" where
  "replaceAllC r ic f s =
     (case scan r ic [] s of
        (segs, rest) \<Rightarrow> (fillSegs (\<lambda>(gap, m, c, b, a). f (cap c 1)) segs @ rest, segs \<noteq> []))"

text \<open>The same for a replacer that may throw: the first throw ends the replacement.\<close>

fun fillSegsE :: "(jstring \<Rightarrow> error + jstring) \<Rightarrow> seg list \<Rightarrow> error + jstring" where
  "fillSegsE f [] = Inr []"
| "fillSegsE f ((gap, m, c, b, a) # segs) =
     (case f (cap c 1) of
        Inl e \<Rightarrow> Inl e
      | Inr out \<Rightarrow>
          (case fillSegsE f segs of Inl e \<Rightarrow> Inl e | Inr outs \<Rightarrow> Inr (gap @ out @ outs)))"

definition replaceAllE :: "re \<Rightarrow> bool \<Rightarrow> (jstring \<Rightarrow> error + jstring) \<Rightarrow> jstring \<Rightarrow> error + jstring \<times> bool" where
  "replaceAllE r ic f s =
     (case scan r ic [] s of
        (segs, rest) \<Rightarrow>
          (case fillSegsE f segs of Inl e \<Rightarrow> Inl e | Inr out \<Rightarrow> Inr (out @ rest, segs \<noteq> [])))"

text \<open>A default parameter \<^verbatim>\<open>(x = d)\<close>: the default is taken for the argument \<^verbatim>\<open>undefined\<close>.\<close>

definition defaulted :: "jsval \<Rightarrow> jsval \<Rightarrow> jsval" where
  "defaulted v d = (if v = JUndefined then d else v)"

text \<open>
  \<^verbatim>\<open>function emFromPx(px, basePx = 16)\<close> called as \<^verbatim>\<open>emFromPx(parseFloat(n), basePx)\<close>: the
  division converts \<^verbatim>\<open>basePx\<close> first.
\<close>

definition emFromPxJS :: "host \<Rightarrow> jsval \<Rightarrow> jstring \<Rightarrow> error + jstring" where
  "emFromPxJS h basePx n =
     (case toPrimitiveJS (defaulted basePx (JNum (asc ''16''))) of
        Inl e \<Rightarrow> Inl e
      | Inr p \<Rightarrow> Inr (emFromPx h n p))"

text \<open>The length patterns \<^verbatim>\<open>/([\d.]+)\s*px\b/gi\<close>, and the same for \<^verbatim>\<open>pt\<close> and \<^verbatim>\<open>rem\<close>.\<close>

definition unitRe :: "jstring \<Rightarrow> re" where
  "unitRe u = seqs [Grp 1 (Plus (Cls [CDigit, CU 46])), Star (Cls [CSpace]), lit u, WordB]"

type_synonym decl = "jstring \<times> jstring"

definition parseDecl :: "host \<Rightarrow> jstring \<Rightarrow> decl option" where
  "parseDecl h part =
     (let p = js_trim part in
      if p = [] then None
      else (case indexOf p (asc '':'') of
              None \<Rightarrow> None
            | Some idx \<Rightarrow> Some (toLowerCase h (js_trim (take idx p)), js_trim (drop (idx + 1) p))))"

text \<open>One declaration of the \<^verbatim>\<open>map\<close>: what it becomes, and whether \<^verbatim>\<open>changed\<close> was set.\<close>

definition convertDecl :: "host \<Rightarrow> jsval \<Rightarrow> jsval \<Rightarrow> decl \<Rightarrow> error + decl option \<times> bool" where
  "convertDecl h basePx removeWidth d =
     (case d of (prop, v0) \<Rightarrow>
        if truthy removeWidth \<and> prop = asc ''width'' then Inr (None, True)
        else
          (case (if prop = asc ''font-size'' then
                   (case replaceAllE (unitRe (asc ''px'')) True (emFromPxJS h basePx) v0 of
                      Inl e \<Rightarrow> Inl e
                    | Inr (v1, c1) \<Rightarrow>
                        (case replaceAllC (unitRe (asc ''pt'')) True (emFromPt h) v1 of
                           (v2, c2) \<Rightarrow>
                             (case replaceAllC (unitRe (asc ''rem'')) True (emFromRem h) v2 of
                                (v3, c3) \<Rightarrow> Inr (v3, c1 \<or> c2 \<or> c3))))
                 else Inr (v0, False)) of
             Inl e \<Rightarrow> Inl e
           | Inr (v3, c3) \<Rightarrow>
               (case replaceAllE (unitRe (asc ''px'')) True (emFromPxJS h basePx) v3 of
                  Inl e \<Rightarrow> Inl e
                | Inr (v4, c4) \<Rightarrow>
                    (case replaceAllC (unitRe (asc ''pt'')) True (emFromPt h) v4 of
                       (v5, c5) \<Rightarrow> Inr (Some (prop, v5), c3 \<or> c4 \<or> c5)))))"

text \<open>The \<^verbatim>\<open>map\<close> over the declarations, from left to right.\<close>

fun convertAll :: "host \<Rightarrow> jsval \<Rightarrow> jsval \<Rightarrow> decl list \<Rightarrow> error + (decl option \<times> bool) list" where
  "convertAll h basePx removeWidth [] = Inr []"
| "convertAll h basePx removeWidth (d # ds) =
     (case convertDecl h basePx removeWidth d of
        Inl e \<Rightarrow> Inl e
      | Inr r \<Rightarrow>
          (case convertAll h basePx removeWidth ds of Inl e \<Rightarrow> Inl e | Inr rs \<Rightarrow> Inr (r # rs)))"

definition isPadding :: "decl \<Rightarrow> bool" where
  "isPadding d \<longleftrightarrow> prefix (asc ''padding-'') (fst d)"

definition padKeys :: "jstring list" where
  "padKeys = [asc ''padding-top'', asc ''padding-right'', asc ''padding-bottom'', asc ''padding-left'']"

text \<open>The \<^verbatim>\<open>Map\<close> of the padding declarations: a later one overwrites an earlier one.\<close>

fun padMap :: "decl list \<Rightarrow> (jstring \<rightharpoonup> jstring) \<Rightarrow> (jstring \<rightharpoonup> jstring)" where
  "padMap [] pad = pad"
| "padMap (d # ds) pad = padMap ds (if isPadding d then pad(fst d \<mapsto> snd d) else pad)"

text \<open>\<^verbatim>\<open>padKeys.map(k => pad.get(k)).filter(Boolean)\<close>: a missing and an empty value go.\<close>

definition presentVals :: "(jstring \<rightharpoonup> jstring) \<Rightarrow> jstring list" where
  "presentVals pad = filter (\<lambda>v. v \<noteq> []) (List.map_filter pad padKeys)"

text \<open>The compaction loop, with its flag \<^verbatim>\<open>inserted\<close>.\<close>

fun compress :: "jstring \<Rightarrow> bool \<Rightarrow> decl list \<Rightarrow> decl list" where
  "compress v inserted [] = []"
| "compress v inserted (d # ds) =
     (if isPadding d then
        (if \<not> inserted then (asc ''padding'', v) # compress v True ds else compress v inserted ds)
      else d # compress v inserted ds)"

definition renderDecls :: "decl list \<Rightarrow> jstring" where
  "renderDecls ds = js_join (asc ''; '') (map (\<lambda>d. fst d @ asc '':'' @ snd d) ds)"

text \<open>
  \<^verbatim>\<open>function normalizeInlineStyle(style, basePx = 16, removeWidth = true)\<close>.
\<close>

definition normalizeInlineStyle :: "host \<Rightarrow> jstring \<Rightarrow> jsval \<Rightarrow> jsval \<Rightarrow> error + jstring \<times> bool" where
  "normalizeInlineStyle h style basePx removeWidth =
     (if style = [] then Inr (style, False)
      else
        (case convertAll h (defaulted basePx (JNum (asc ''16''))) (defaulted removeWidth (JBool True))
                (List.map_filter (parseDecl h) (splitOn 59 style)) of
           Inl e \<Rightarrow> Inl e
         | Inr results \<Rightarrow>
             (let changed = list_ex snd results;
                  converted = List.map_filter fst results;
                  vals = presentVals (padMap converted Map.empty)
              in (case vals of
                    [] \<Rightarrow> Inr (renderDecls converted, changed)
                  | v # _ \<Rightarrow>
                      if 3 \<le> length vals \<and> list_all (\<lambda>w. w = v) vals
                      then Inr (renderDecls (compress v False converted),
                                changed \<or> list_ex isPadding converted)
                      else Inr (renderDecls converted, changed)))))"

text \<open>
  The attribute pattern
  \<^verbatim>\<open>new RegExp(`\\s${attrName}\\s*=\\s*("([^"]*)"|'([^']*)'|[^\\s>]+)`, "i")\<close>.
  The engine builds it for the names \<^verbatim>\<open>title alt scope style target type id aria-label
  aria-labelledby\<close> only, in which no character is special in a pattern: the name is a
  literal. \<^verbatim>\<open>getAttr\<close> has the third alternative in a group of its own (\<open>grouped\<close>).
\<close>

definition attrRe :: "bool \<Rightarrow> jstring \<Rightarrow> re" where
  "attrRe grouped attrName =
     seqs [At (Cls [CSpace]), lit attrName, Star (Cls [CSpace]), At (Lit 61), Star (Cls [CSpace]),
       Grp 1 (alts
         [seqs [At (Lit 34), Grp 2 (Star (NCls [CU 34])), At (Lit 34)],
          seqs [At (Lit 39), Grp 3 (Star (NCls [CU 39])), At (Lit 39)],
          (if grouped then Grp 4 (Plus (NCls [CSpace, CU 62])) else Plus (NCls [CSpace, CU 62]))])]"

text \<open>\<^verbatim>\<open>/^["']|["']$/g\<close> and \<^verbatim>\<open>/>$/\<close>.\<close>

definition quoteRe :: re where
  "quoteRe = Alt (Seq Bol (At (Cls [CU 34, CU 39]))) (Seq (At (Cls [CU 34, CU 39])) Eol)"

definition gtEndRe :: re where
  "gtEndRe = Seq (At (Lit 62)) Eol"

text \<open>The value the replacer of \<^verbatim>\<open>addOrUpdateAttr\<close> reads off the matched text.\<close>

definition rawValue :: "jstring \<Rightarrow> jstring" where
  "rawValue m =
     (let v = js_trim (js_join (asc ''='') (drop 1 (splitOn 61 m)))
      in replaceAll quoteRe False (byString []) v)"

definition attrText :: "jstring \<Rightarrow> jstring \<Rightarrow> jstring" where
  "attrText attrName av = asc '' '' @ attrName @ [61, 34] @ av @ [34]"

text \<open>
  \<^verbatim>\<open>addOrUpdateAttr\<close>. \<^verbatim>\<open>re.test(tag)\<close> and \<^verbatim>\<open>tag.replace(re, ...)\<close> run the same search.
  The new value goes through a template literal, which converts it to a string where the
  template is evaluated: in the replacer only for an empty value, and always on the
  inserting path.
\<close>

definition addOrUpdateAttr :: "jstring \<Rightarrow> jstring \<Rightarrow> jsval \<Rightarrow> error + jstring" where
  "addOrUpdateAttr tag attrName attrValue =
     (case search (attrRe False attrName) True None tag of
        Some (pre, m, post, c) \<Rightarrow>
          (if js_trim (rawValue m) = [] then
             (case toStringJS attrValue of
                Inl e \<Rightarrow> Inl e
              | Inr av \<Rightarrow> Inr (pre @ attrText attrName av @ post))
           else Inr (pre @ m @ post))
      | None \<Rightarrow>
          (case toStringJS attrValue of
             Inl e \<Rightarrow> Inl e
           | Inr av \<Rightarrow> Inr (replaceFirst gtEndRe False (byString (attrText attrName av @ [62])) tag)))"

text \<open>\<^verbatim>\<open>getAttr\<close>: \<open>None\<close> is the source's \<^verbatim>\<open>null\<close>.\<close>

definition getAttr :: "jstring \<Rightarrow> jstring \<Rightarrow> jstring option" where
  "getAttr tag attrName =
     (case search (attrRe True attrName) True None tag of
        None \<Rightarrow> None
      | Some (pre, m, post, c) \<Rightarrow>
          Some (case c 2 of Some x \<Rightarrow> x
                | None \<Rightarrow> (case c 3 of Some x \<Rightarrow> x | None \<Rightarrow> cap c 4)))"

section \<open>Issues\<close>

datatype level = LevelA | LevelAA | LevelAAA

record issue =
  ruleId :: jstring
  wcagCode :: jstring
  taiwanCode :: jstring
  level :: level
  message :: jstring
  line :: nat
  column :: nat
  startOffset :: nat
  endOffset :: nat
  originalSnippet :: jstring
  fixedSnippet :: "jstring option"
  autoFixed :: bool
  needsManualReview :: bool
  suggestion :: "jstring option"

text \<open>\<^verbatim>\<open>createIssue\<close>: the location fields start at 0.\<close>

definition createIssue :: "jstring \<Rightarrow> jstring \<Rightarrow> jstring \<Rightarrow> level \<Rightarrow> jstring \<Rightarrow> jstring \<Rightarrow>
    jstring option \<Rightarrow> bool \<Rightarrow> bool \<Rightarrow> jstring option \<Rightarrow> issue" where
  "createIssue rid wcag tw lv msg orig fixed af nmr sug =
     \<lparr> ruleId = rid, wcagCode = wcag, taiwanCode = tw, level = lv, message = msg,
       line = 0, column = 0, startOffset = 0, endOffset = 0,
       originalSnippet = orig, fixedSnippet = fixed, autoFixed = af,
       needsManualReview = nmr, suggestion = sug \<rparr>"


section \<open>The texts of the engine\<close>

text \<open>
  The placeholders, messages and suggestions of the source (Chinese text for the most
  part), as their UTF-16 code units: \<open>ph_\<close> a default placeholder, \<open>msg_\<close> the message and
  \<open>sug_\<close> the suggestion of the rule named.
\<close>

definition ph_iframeTitle :: jstring where
  "ph_iframeTitle =
     [65288, 35531, 35036, 19978, 38913, 26694, 27161, 38988, 65289]"

definition msg_frame_title :: jstring where
  "msg_frame_title =
     [38913, 26694, 47, 20839, 23884, 38913, 26694, 32570, 23569, 32, 116, 105, 116, 108,
      101, 32, 23660, 24615, 25110, 28858, 31354, 20540]"

definition sug_frame_title :: jstring where
  "sug_frame_title =
     [35531, 25552, 20379, 33021, 25551, 36848, 27492, 38913, 26694, 29992, 36884, 30340,
      32, 116, 105, 116, 108, 101, 65288, 20363, 22914, 65306, 24291, 21578, 12289, 23566,
      35261, 12289, 24433, 29255, 25773, 25918, 22120, 31561, 65289]"

definition ph_imgAlt :: jstring where
  "ph_imgAlt =
     [65288, 35531, 35036, 19978, 22294, 29255, 26367, 20195, 25991, 23383, 65289]"

definition msg_img_alt :: jstring where
  "msg_img_alt =
     [22294, 29255, 32570, 23569, 32, 97, 108, 116, 32, 23660, 24615]"

definition sug_img_alt :: jstring where
  "sug_img_alt =
     [33509, 28858, 35037, 39166, 22294, 29255, 21487, 20351, 29992, 32, 97, 108, 116, 61,
      34, 34, 65307, 33509, 28858, 36039, 35338, 24615, 47, 21151, 33021, 24615, 22294,
      29255, 35531, 25551, 36848, 20854, 29992, 36884, 47, 20839, 23481]"

definition msg_img_alt_link :: jstring where
  "msg_img_alt_link =
     [37832, 32080, 20013, 30340, 22294, 29255, 38656, 25552, 20379, 21487, 25551, 36848,
      30446, 30340, 30340, 32, 97, 108, 116, 65288, 19981, 21487, 28858, 31354, 65289]"

definition sug_img_alt_link :: jstring where
  "sug_img_alt_link =
     [33509, 27492, 22294, 29255, 28858, 37832, 32080, 30340, 21807, 19968, 21487, 35712,
      20839, 23481, 65292, 97, 108, 116, 32, 25033, 25551, 36848, 37832, 32080, 30446,
      30340, 65307, 36991, 20813, 20351, 29992, 31354, 20540, 32, 97, 108, 116, 61, 34, 34,
      12290]"

definition ph_linkText :: jstring where
  "ph_linkText =
     [65288, 35531, 35036, 19978, 37832, 32080, 25991, 23383, 65289]"

definition ph_linkEmptyTitle :: jstring where
  "ph_linkEmptyTitle =
     [65288, 35531, 35036, 19978, 37832, 32080, 30446, 30340, 65289]"

definition msg_link_text :: jstring where
  "msg_link_text =
     [37832, 32080, 25991, 23383, 28858, 31354, 65288, 24050, 35036, 19978, 32, 112, 108,
      97, 99, 101, 104, 111, 108, 100, 101, 114, 65292, 35531, 20154, 24037, 30906, 35469,
      37832, 32080, 30446, 30340, 65289]"

definition sug_link_text :: jstring where
  "sug_link_text =
     [35531, 23559, 32, 112, 108, 97, 99, 101, 104, 111, 108, 100, 101, 114, 32, 25913,
      28858, 33021, 25551, 36848, 37832, 32080, 30446, 30340, 30340, 25991, 23383, 65307,
      33509, 28858, 22294, 31034, 37832, 32080, 65292, 35531, 29992, 32, 60, 105, 109, 103,
      32, 97, 108, 116, 61, 46, 46, 46, 62, 32, 25551, 36848, 20854, 29992, 36884]"

definition ph_newWindowHint :: jstring where
  "ph_newWindowHint =
     [22312, 26032, 35222, 31383, 25171, 38283, 37832, 32080]"

definition msg_new_window_added :: jstring where
  "msg_new_window_added =
     [37832, 32080, 20351, 29992, 32, 116, 97, 114, 103, 101, 116, 61, 95, 98, 108, 97, 110,
      107, 65292, 24050, 35036, 20805, 32, 116, 105, 116, 108, 101, 32, 25552, 31034, 21478,
      38283, 26032, 35222, 31383]"

definition msg_link_title :: jstring where
  "msg_link_title =
     [37832, 32080, 32570, 23569, 32, 116, 105, 116, 108, 101, 65288, 24050, 35036, 19978,
      65289]"

definition sug_link_title :: jstring where
  "sug_link_title =
     [116, 105, 116, 108, 101, 32, 25033, 33021, 35036, 20805, 37832, 32080, 30446, 30340,
      65307, 33509, 37832, 32080, 25991, 23383, 24050, 36275, 22816, 65292, 21487, 35222,
      24773, 27841, 20445, 30041, 25110, 31227, 38500, 32, 116, 105, 116, 108, 101, 12290]"

definition msg_new_window_filled :: jstring where
  "msg_new_window_filled =
     [37832, 32080, 20351, 29992, 32, 116, 97, 114, 103, 101, 116, 61, 95, 98, 108, 97, 110,
      107, 65292, 24050, 35036, 19978, 32, 116, 105, 116, 108, 101, 32, 25552, 31034, 21478,
      38283, 26032, 35222, 31383]"

definition msg_table_row_header :: jstring where
  "msg_table_row_header =
     [34920, 26684, 21015, 27161, 38988, 24314, 35696, 20351, 29992, 32, 116, 104, 65288,
      24050, 23559, 31532, 19968, 27396, 32, 116, 100, 32, 36681, 28858, 32, 116, 104, 32,
      115, 99, 111, 112, 101, 61, 34, 114, 111, 119, 34, 65289]"

definition sug_table_row_header :: jstring where
  "sug_table_row_header =
     [33509, 27492, 27396, 20301, 30906, 23526, 28858, 21015, 47, 34892, 27161, 38988,
      65292, 20351, 29992, 32, 116, 104, 32, 43, 32, 115, 99, 111, 112, 101, 32, 21487,
      25552, 21319, 36628, 21161, 31185, 25216, 26391, 35712, 27491, 30906, 24615, 12290]"

definition msg_th_scope :: jstring where
  "msg_th_scope =
     [60, 116, 104, 62, 32, 32570, 23569, 32, 115, 99, 111, 112, 101, 65288, 24050, 35036,
      19978, 32, 115, 99, 111, 112, 101, 61, 34, 99, 111, 108, 34, 65289]"

definition sug_th_scope :: jstring where
  "sug_th_scope =
     [33509, 27492, 32, 116, 104, 32, 28858, 21015, 27161, 38988, 35531, 25913, 28858, 32,
      115, 99, 111, 112, 101, 61, 34, 114, 111, 119, 34, 65307, 33509, 28858, 27396, 27161,
      38988, 21063, 32, 115, 99, 111, 112, 101, 61, 34, 99, 111, 108, 34]"

definition msg_css_units :: jstring where
  "msg_css_units =
     [24050, 23559, 32, 105, 110, 108, 105, 110, 101, 32, 115, 116, 121, 108, 101, 32,
      20013, 30340, 32, 112, 120, 47, 112, 116, 32, 21934, 20301, 36681, 28858, 30456,
      23565, 21934, 20301, 65288, 101, 109, 65289, 65292, 20006, 31227, 38500, 22266, 23450,
      32, 119, 105, 100, 116, 104]"

definition sug_css_units :: jstring where
  "sug_css_units =
     [24314, 35696, 20351, 29992, 32, 101, 109, 47, 114, 101, 109, 47, 37, 32, 31561, 30456,
      23565, 21934, 20301, 20197, 25903, 25588, 25991, 23383, 32302, 25918, 33287, 21487,
      35712, 24615, 12290]"

definition msg_css_style_tag :: jstring where
  "msg_css_style_tag =
     [24050, 23559, 32, 60, 115, 116, 121, 108, 101, 62, 32, 20839, 32, 102, 111, 110, 116,
      45, 115, 105, 122, 101, 32, 30340, 32, 112, 120, 47, 112, 116, 47, 114, 101, 109, 32,
      21934, 20301, 36681, 28858, 32, 101, 109]"

definition snip_style_tag :: jstring where
  "snip_style_tag =
     [60, 115, 116, 121, 108, 101, 62, 8230, 60, 47, 115, 116, 121, 108, 101, 62]"

definition msg_form_label :: jstring where
  "msg_form_label =
     [34920, 21934, 27396, 20301, 32570, 23569, 21487, 34987, 36628, 21161, 31185, 25216,
      36776, 35672, 30340, 27161, 31844, 65288, 108, 97, 98, 101, 108, 47, 97, 114, 105, 97,
      45, 108, 97, 98, 101, 108, 65289]"

definition sug_form_label_noid :: jstring where
  "sug_form_label_noid =
     [24314, 35696, 35036, 32, 105, 100, 32, 20006, 25645, 37197, 32, 60, 108, 97, 98, 101,
      108, 32, 102, 111, 114, 61, 46, 46, 46, 62, 65292, 25110, 20351, 29992, 32, 97, 114,
      105, 97, 45, 108, 97, 98, 101, 108, 47, 97, 114, 105, 97, 45, 108, 97, 98, 101, 108,
      108, 101, 100, 98, 121, 65288, 27880, 24847, 65306, 112, 108, 97, 99, 101, 104, 111,
      108, 100, 101, 114, 32, 19981, 26159, 32, 108, 97, 98, 101, 108, 65289]"

definition msg_skip_link :: jstring where
  "msg_skip_link =
     [24314, 35696, 25552, 20379, 36339, 33267, 20027, 35201, 20839, 23481, 65288, 83, 107,
      105, 112, 32, 76, 105, 110, 107, 65289, 65292, 20197, 21033, 37749, 30436, 47, 36628,
      21161, 31185, 25216, 24555, 36895, 30053, 36942, 23566, 35261]"

definition sug_skip_link :: jstring where
  "sug_skip_link =
     [24314, 35696, 22312, 38913, 38754, 26368, 21069, 26041, 21152, 20837, 32, 60, 97, 32,
      104, 114, 101, 102, 61, 34, 35, 109, 97, 105, 110, 34, 62, 36339, 21040, 20027, 35201,
      20839, 23481, 60, 47, 97, 62, 32, 20006, 30906, 20445, 32, 109, 97, 105, 110, 32,
      21312, 22602, 20855, 23565, 25033, 32, 105, 100, 12290]"

definition msg_color_contrast :: jstring where
  "msg_color_contrast =
     [20597, 28204, 21040, 25991, 23383, 38991, 33394, 35373, 23450, 65292, 38656, 20154,
      24037, 30906, 35469, 33287, 32972, 26223, 20043, 23565, 27604, 65288, 70, 114, 101,
      101, 103, 111, 32, 65, 65, 32, 24120, 35211, 27298, 26597, 65289]"

definition sug_color_contrast :: jstring where
  "sug_color_contrast =
     [35531, 29992, 32, 70, 114, 101, 101, 103, 111, 47, 23565, 27604, 27298, 28204, 24037,
      20855, 30906, 35469, 19968, 33324, 25991, 23383, 23565, 27604, 32, 62, 61, 32, 52, 46,
      53, 58, 49, 65288, 22823, 23383, 32, 62, 61, 32, 51, 58, 49, 65289, 65292, 24517,
      35201, 26178, 35519, 25972, 32, 99, 111, 108, 111, 114, 47, 98, 97, 99, 107, 103, 114,
      111, 117, 110, 100, 45, 99, 111, 108, 111, 114, 12290]"

definition msg_fake_button :: jstring where
  "msg_fake_button =
     [20597, 28204, 21040, 38750, 35486, 24847, 20114, 21205, 20803, 20214, 65288, 100, 105,
      118, 47, 115, 112, 97, 110, 32, 43, 32, 111, 110, 99, 108, 105, 99, 107, 65289, 65292,
      21487, 33021, 28961, 27861, 37749, 30436, 25805, 20316]"

definition sug_fake_button :: jstring where
  "sug_fake_button =
     [24314, 35696, 25913, 29992, 32, 60, 98, 117, 116, 116, 111, 110, 62, 65307, 25110,
      35036, 32, 114, 111, 108, 101, 61, 34, 98, 117, 116, 116, 111, 110, 34, 12289, 116,
      97, 98, 105, 110, 100, 101, 120, 61, 34, 48, 34, 32, 20006, 21152, 20837, 32, 107,
      101, 121, 100, 111, 119, 110, 47, 107, 101, 121, 117, 112, 32, 20197, 25903, 25588,
      32, 69, 110, 116, 101, 114, 47, 83, 112, 97, 99, 101, 12290]"

definition sug_form_label_id_pre :: jstring where
  "sug_form_label_id_pre =
     [35531, 30906, 35469, 26159, 21542, 26377, 32, 60, 108, 97, 98, 101, 108, 32, 102, 111,
      114, 61, 34]"

definition sug_form_label_id_post :: jstring where
  "sug_form_label_id_post =
     [34, 62, 46, 46, 46, 65307, 25110, 35036, 32, 97, 114, 105, 97, 45, 108, 97, 98, 101,
      108, 47, 97, 114, 105, 97, 45, 108, 97, 98, 101, 108, 108, 101, 100, 98, 121, 65288,
      27880, 24847, 65306, 112, 108, 97, 99, 101, 104, 111, 108, 100, 101, 114, 32, 19981,
      26159, 32, 108, 97, 98, 101, 108, 65289]"

text \<open>The word the frame pass looks for in its placeholder, and the full-width colon.\<close>

definition pleaseFill :: jstring where
  "pleaseFill = [35531, 35036, 19978]"

definition wideColon :: jstring where
  "wideColon = [65306]"

section \<open>Replacing with a replacer that records issues\<close>

text \<open>
  The replacers of \<^verbatim>\<open>repairHtml\<close> push issues and may throw. \<open>replaceAllM\<close> calls the
  replacer on the matches from left to right, threading the issue list.
\<close>

type_synonym replacer = "jstring \<Rightarrow> caps \<Rightarrow> issue list \<Rightarrow> error + jstring \<times> issue list"

fun segsM :: "replacer \<Rightarrow> seg list \<Rightarrow> issue list \<Rightarrow> error + jstring \<times> issue list" where
  "segsM f [] iss = Inr ([], iss)"
| "segsM f ((gap, m, c, b, a) # segs) iss =
     (case f m c iss of
        Inl e \<Rightarrow> Inl e
      | Inr (out, iss') \<Rightarrow>
          (case segsM f segs iss' of
             Inl e \<Rightarrow> Inl e
           | Inr (outs, iss'') \<Rightarrow> Inr (gap @ out @ outs, iss'')))"

definition replaceAllM :: "re \<Rightarrow> bool \<Rightarrow> replacer \<Rightarrow> jstring \<Rightarrow> issue list \<Rightarrow> error + jstring \<times> issue list" where
  "replaceAllM r ic f s iss =
     (case scan r ic [] s of
        (segs, rest) \<Rightarrow>
          (case segsM f segs iss of
             Inl e \<Rightarrow> Inl e
           | Inr (out, iss') \<Rightarrow> Inr (out @ rest, iss')))"

text \<open>\<^verbatim>\<open>s.match(re)?.[0]\<close>, and \<^verbatim>\<open>x || d\<close> for a string that may be missing.\<close>

definition firstMatch :: "re \<Rightarrow> bool \<Rightarrow> jstring \<Rightarrow> jstring option" where
  "firstMatch r ic s = (case search r ic None s of None \<Rightarrow> None | Some (pre, m, post, c) \<Rightarrow> Some m)"

definition orStr :: "jstring option \<Rightarrow> jstring \<Rightarrow> jstring" where
  "orStr x d = (case x of None \<Rightarrow> d | Some t \<Rightarrow> if t = [] then d else t)"

text \<open>\<^verbatim>\<open>!v || v.trim() === ""\<close> for an attribute value \<open>v\<close>.\<close>

definition blankAttr :: "jstring option \<Rightarrow> bool" where
  "blankAttr v = (case v of None \<Rightarrow> True | Some t \<Rightarrow> js_trim t = [])"

definition pref :: "jsval \<Rightarrow> jstring \<Rightarrow> jsval" where
  "pref config name = getp (getp config (asc ''placeholders'')) name"

definition basePxOf :: "jsval \<Rightarrow> jsval" where
  "basePxOf config = nullish (getp config (asc ''basePx'')) (JNum (asc ''16''))"

definition removeWidthOf :: "jsval \<Rightarrow> jsval" where
  "removeWidthOf config = nullish (getp config (asc ''removeWidth'')) (JBool True)"

section \<open>Pass 1: frames\<close>

text \<open>\<^verbatim>\<open>/<(iframe|frame)\b[^>]*>/gi\<close>\<close>

definition frameRe :: re where
  "frameRe = seqs [At (Lit 60), Grp 1 (Alt (lit (asc ''iframe'')) (lit (asc ''frame''))), WordB,
     Star (NCls [CU 62]), At (Lit 62)]"

text \<open>The source calls \<^verbatim>\<open>addOrUpdateAttr(tag, "title", placeholder)\<close> twice, for the
  issue and for the result; it is a pure function.\<close>

definition frameTitleFix :: "jsval \<Rightarrow> replacer" where
  "frameTitleFix config tag c iss =
     (if blankAttr (getAttr tag (asc ''title'')) then
        (let placeholder = orElse (pref config (asc ''iframeTitle'')) (JStr ph_iframeTitle) in
         case addOrUpdateAttr tag (asc ''title'') placeholder of
           Inl e \<Rightarrow> Inl e
         | Inr fixed \<Rightarrow>
             (case includesJS placeholder pleaseFill of
                Inl e \<Rightarrow> Inl e
              | Inr review \<Rightarrow>
                  Inr (fixed, iss @ [createIssue (asc ''frame-title'') (asc ''4.1.2'') (asc ''HM1410201C'')
                    LevelA msg_frame_title tag (Some fixed) True review (Some sug_frame_title)])))
      else Inr (tag, iss))"

section \<open>Pass 2: images\<close>

text \<open>\<^verbatim>\<open>/<img\b[^>]*>/gi\<close>\<close>

definition imgRe :: re where
  "imgRe = seqs [lit (asc ''<img''), WordB, Star (NCls [CU 62]), At (Lit 62)]"

definition imgAltFix :: "jsval \<Rightarrow> replacer" where
  "imgAltFix config tag c iss =
     (case getAttr tag (asc ''alt'') of
        None \<Rightarrow>
          (let placeholder = orElse (pref config (asc ''imgAlt'')) (JStr ph_imgAlt) in
           case addOrUpdateAttr tag (asc ''alt'') placeholder of
             Inl e \<Rightarrow> Inl e
           | Inr fixed \<Rightarrow>
               Inr (fixed, iss @ [createIssue (asc ''img-alt'') (asc ''1.1.1'') (asc ''HM1110101C'')
                 LevelA msg_img_alt tag (Some fixed) True True (Some sug_img_alt)]))
      | Some alt \<Rightarrow> Inr (tag, iss))"


section \<open>Pass 3: links\<close>

text \<open>
  \<^verbatim>\<open>/<a\b[^>]*>[\s\S]*?<\/a>/gi\<close>, \<^verbatim>\<open>/<a\b[^>]*>/i\<close>, \<^verbatim>\<open>/<\/a>/i\<close>,
  \<^verbatim>\<open>/<a\b[^>]*\bhref\s*=/i\<close>, \<^verbatim>\<open>/\{text\}/g\<close> and the words for a new window,
  \<^verbatim>\<open>/.../i\<close> over five alternatives: three Chinese phrases, a fourth that extends the
  third, and \<^verbatim>\<open>new window\<close>.
\<close>

definition linkRe :: re where
  "linkRe = seqs [lit (asc ''<a''), WordB, Star (NCls [CU 62]), At (Lit 62), LazyStar anyCU,
     lit (asc ''</a>'')]"

definition aOpenRe :: re where
  "aOpenRe = seqs [lit (asc ''<a''), WordB, Star (NCls [CU 62]), At (Lit 62)]"

definition aCloseRe :: re where
  "aCloseRe = lit (asc ''</a>'')"

definition hrefRe :: re where
  "hrefRe = seqs [lit (asc ''<a''), WordB, Star (NCls [CU 62]), WordB, lit (asc ''href''),
     Star (Cls [CSpace]), At (Lit 61)]"

definition textSlotRe :: re where
  "textSlotRe = lit (asc ''{text}'')"

definition newWindowRe :: re where
  "newWindowRe = alts [lit [26032, 35222, 31383], lit [26032, 31383, 21475], lit [21478, 38283],
     lit [21478, 38283, 35222, 31383], lit (asc ''new window'')]"

text \<open>The replacer of the images inside a link: a missing or blank \<^verbatim>\<open>alt\<close> is filled.\<close>

definition linkImgFix :: "jsval \<Rightarrow> replacer" where
  "linkImgFix config imgTag c iss =
     (if blankAttr (getAttr imgTag (asc ''alt'')) then
        (let placeholder = orElse (pref config (asc ''imgAlt'')) (JStr ph_imgAlt) in
         case addOrUpdateAttr imgTag (asc ''alt'') placeholder of
           Inl e \<Rightarrow> Inl e
         | Inr fixed \<Rightarrow>
             Inr (fixed, iss @ [createIssue (asc ''img-alt'') (asc ''1.1.1'') (asc ''HM1110101C'')
               LevelA msg_img_alt_link imgTag (Some fixed) True True (Some sug_img_alt_link)]))
      else Inr (imgTag, iss))"

text \<open>The accessible name: the visible text, else the trimmed \<^verbatim>\<open>alt\<close> of the first image.\<close>

definition linkNameOf :: "jstring \<Rightarrow> jstring \<Rightarrow> jstring" where
  "linkNameOf txt inner =
     (if txt \<noteq> [] then txt
      else (case firstMatch imgRe True inner of
              None \<Rightarrow> []
            | Some imgInLink \<Rightarrow>
                if imgInLink = [] then []
                else (case getAttr imgInLink (asc ''alt'') of None \<Rightarrow> [] | Some alt \<Rightarrow> js_trim alt)))"

text \<open>\<^verbatim>\<open>config?.placeholders?.newWindowHint || "..."\<close> and the template \<^verbatim>\<open>`${hint}:${x}`\<close>
  (with the full-width colon).\<close>

definition newWindowHint :: "jsval \<Rightarrow> jsval" where
  "newWindowHint config = orElse (pref config (asc ''newWindowHint'')) (JStr ph_newWindowHint)"

definition mergedTitle :: "jsval \<Rightarrow> jstring \<Rightarrow> error + jstring" where
  "mergedTitle hint x = (case toStringJS hint of Inl e \<Rightarrow> Inl e | Inr hs \<Rightarrow> Inr (hs @ wideColon @ x))"

text \<open>The link without an accessible name.\<close>

definition emptyLink :: "jsval \<Rightarrow> jstring \<Rightarrow> jstring \<Rightarrow> issue list \<Rightarrow> error + jstring \<times> issue list" where
  "emptyLink config openTag full iss =
     (let textPlaceholder = orElse (pref config (asc ''linkText'')) (JStr ph_linkText);
          titlePlaceholder = orElse (pref config (asc ''linkEmptyTitle'')) (JStr ph_linkEmptyTitle)
      in case addOrUpdateAttr openTag (asc ''title'') titlePlaceholder of
           Inl e \<Rightarrow> Inl e
         | Inr fixedOpen \<Rightarrow>
             (case toStringJS textPlaceholder of
                Inl e \<Rightarrow> Inl e
              | Inr tp \<Rightarrow>
                  (let fixedFull = fixedOpen @ tp @ asc ''</a>'' in
                   Inr (fixedFull,
                     if ruleEnabled config (asc ''link-text'')
                     then iss @ [createIssue (asc ''link-text'') (asc ''2.4.4'') (asc ''HM1240401C'')
                       LevelA msg_link_text full (Some fixedFull) True True (Some sug_link_text)]
                     else iss))))"

text \<open>The issue of the three new-window branches, which differ in the message only.\<close>

definition newWindowIssue :: "jstring \<Rightarrow> jstring \<Rightarrow> jstring \<Rightarrow> issue" where
  "newWindowIssue msg full fixedFull =
     createIssue (asc ''link-new-window'') (asc ''2.4.4'') (asc ''HM1240401C'') LevelA msg full
       (Some fixedFull) True False None"

text \<open>\<^verbatim>\<open>prefs.linkTitle ? prefs.linkTitle.replace(/\{text\}/g, linkName) : linkName\<close>: only
  a string has the method.\<close>

definition titleTextOf :: "jsval \<Rightarrow> jstring \<Rightarrow> error + jstring" where
  "titleTextOf config linkName =
     (let linkTitle = pref config (asc ''linkTitle'') in
      if truthy linkTitle then
        (case linkTitle of
           JStr s \<Rightarrow> Inr (replaceAll textSlotRe False (byString linkName) s)
         | _ \<Rightarrow> Inl TypeError)
      else Inr linkName)"

text \<open>The link with an accessible name: the branches on \<^verbatim>\<open>target\<close> and \<^verbatim>\<open>title\<close>, in the
  source's order.\<close>

definition namedLink :: "host \<Rightarrow> jsval \<Rightarrow> jstring \<Rightarrow> jstring \<Rightarrow> jstring \<Rightarrow> jstring \<Rightarrow> issue list \<Rightarrow>
    error + jstring \<times> issue list" where
  "namedLink h config openTag inner full linkName iss =
     (let target = getAttr openTag (asc ''target'');
          isBlank = (case target of None \<Rightarrow> False | Some t \<Rightarrow> toLowerCase h t = asc ''_blank'');
          title = getAttr openTag (asc ''title'')
      in
      if isBlank \<and> ruleEnabled config (asc ''link-new-window'') \<and> blankAttr title
           \<and> \<not> ruleEnabled config (asc ''link-title'') then
        (case mergedTitle (newWindowHint config) linkName of
           Inl e \<Rightarrow> Inl e
         | Inr merged \<Rightarrow>
             (case addOrUpdateAttr openTag (asc ''title'') (JStr merged) of
                Inl e \<Rightarrow> Inl e
              | Inr fixedOpen \<Rightarrow>
                  (let fixedFull = fixedOpen @ inner @ asc ''</a>'' in
                   Inr (fixedFull, iss @ [newWindowIssue msg_new_window_added full fixedFull]))))
      else if ruleEnabled config (asc ''link-title'') \<and> blankAttr title then
        (case titleTextOf config linkName of
           Inl e \<Rightarrow> Inl e
         | Inr titleText \<Rightarrow>
             (case addOrUpdateAttr openTag (asc ''title'') (JStr titleText) of
                Inl e \<Rightarrow> Inl e
              | Inr fixedOpen \<Rightarrow>
                  (let fixedFull = fixedOpen @ inner @ asc ''</a>'';
                       iss' = iss @ [createIssue (asc ''link-title'') (asc ''2.4.4'') (asc ''HM1240401C'')
                         LevelA msg_link_title full (Some fixedFull) True False (Some sug_link_title)]
                   in
                   if isBlank \<and> ruleEnabled config (asc ''link-new-window'') then
                     (case mergedTitle (newWindowHint config) titleText of
                        Inl e \<Rightarrow> Inl e
                      | Inr merged \<Rightarrow>
                          (case addOrUpdateAttr openTag (asc ''title'') (JStr merged) of
                             Inl e \<Rightarrow> Inl e
                           | Inr mergedOpen \<Rightarrow> Inr (mergedOpen @ inner @ asc ''</a>'', iss')))
                   else Inr (fixedFull, iss'))))
      else if isBlank \<and> ruleEnabled config (asc ''link-new-window'') \<and> blankAttr title then
        (case mergedTitle (newWindowHint config) linkName of
           Inl e \<Rightarrow> Inl e
         | Inr merged \<Rightarrow>
             (case addOrUpdateAttr openTag (asc ''title'') (JStr merged) of
                Inl e \<Rightarrow> Inl e
              | Inr fixedOpen \<Rightarrow>
                  (let fixedFull = fixedOpen @ inner @ asc ''</a>'' in
                   Inr (fixedFull, iss @ [newWindowIssue msg_new_window_filled full fixedFull]))))
      else if isBlank \<and> ruleEnabled config (asc ''link-new-window'') then
        (let currentTitle = (case title of None \<Rightarrow> [] | Some t \<Rightarrow> js_trim t) in
         if currentTitle \<noteq> [] \<and> \<not> test newWindowRe True currentTitle then
           (case mergedTitle (newWindowHint config) currentTitle of
              Inl e \<Rightarrow> Inl e
            | Inr merged \<Rightarrow>
                (case addOrUpdateAttr openTag (asc ''title'') (JStr merged) of
                   Inl e \<Rightarrow> Inl e
                 | Inr fixedOpen \<Rightarrow>
                     (let fixedFull = fixedOpen @ inner @ asc ''</a>'' in
                      Inr (fixedFull, iss @ [newWindowIssue msg_new_window_added full fixedFull]))))
         else Inr (full, iss))
      else Inr (full, iss))"

text \<open>The replacer of the link pass. The pass itself is not behind a rule switch.\<close>

definition linkFix :: "host \<Rightarrow> jsval \<Rightarrow> replacer" where
  "linkFix h config full c iss =
     (let openTag = orStr (firstMatch aOpenRe True full) (asc ''<a>'');
          inner0 = replaceFirst aCloseRe True (byString [])
                     (replaceFirst aOpenRe True (byString []) full);
          txt = stripTags inner0
      in
      if \<not> test hrefRe True openTag then Inr (full, iss)
      else
        (case (if ruleEnabled config (asc ''img-alt'')
               then replaceAllM imgRe True (linkImgFix config) inner0 iss
               else Inr (inner0, iss)) of
           Inl e \<Rightarrow> Inl e
         | Inr (inner, iss1) \<Rightarrow>
             (let linkName = linkNameOf txt inner in
              if linkName = [] then emptyLink config openTag full iss1
              else namedLink h config openTag inner full linkName iss1)))"


section \<open>Pass 4: table rows, and pass 4.5: header cells\<close>

text \<open>
  \<^verbatim>\<open>/<tr\b[^>]*>[\s\S]*?<\/tr>/gi\<close>, \<^verbatim>\<open>/<td\b[^>]*>[\s\S]*?<\/td>/i\<close>, \<^verbatim>\<open>/<td\b[^>]*>/i\<close>,
  \<^verbatim>\<open>/<\/td>/i\<close>, \<^verbatim>\<open>/^<td\b/i\<close> and \<^verbatim>\<open>/<th\b[^>]*>/gi\<close>.
\<close>

definition trRe :: re where
  "trRe = seqs [lit (asc ''<tr''), WordB, Star (NCls [CU 62]), At (Lit 62), LazyStar anyCU,
     lit (asc ''</tr>'')]"

definition tdRe :: re where
  "tdRe = seqs [lit (asc ''<td''), WordB, Star (NCls [CU 62]), At (Lit 62), LazyStar anyCU,
     lit (asc ''</td>'')]"

definition tdOpenRe :: re where
  "tdOpenRe = seqs [lit (asc ''<td''), WordB, Star (NCls [CU 62]), At (Lit 62)]"

definition tdCloseRe :: re where
  "tdCloseRe = lit (asc ''</td>'')"

definition tdStartRe :: re where
  "tdStartRe = seqs [Bol, lit (asc ''<td''), WordB]"

definition thRe :: re where
  "thRe = seqs [lit (asc ''<th''), WordB, Star (NCls [CU 62]), At (Lit 62)]"

text \<open>The style of the new header cell: normalised, and written back with
  \<^verbatim>\<open>addOrUpdateAttr\<close> when it changed.\<close>

definition restyle :: "host \<Rightarrow> jsval \<Rightarrow> jstring \<Rightarrow> error + jstring" where
  "restyle h config thOpen =
     (case getAttr thOpen (asc ''style'') of
        None \<Rightarrow> Inr thOpen
      | Some style \<Rightarrow>
          if style = [] then Inr thOpen
          else (case normalizeInlineStyle h style (basePxOf config) (removeWidthOf config) of
                  Inl e \<Rightarrow> Inl e
                | Inr (newStyle, changed) \<Rightarrow>
                    if changed then addOrUpdateAttr thOpen (asc ''style'') (JStr newStyle)
                    else Inr thOpen))"

definition rowHeaderFix :: "host \<Rightarrow> jsval \<Rightarrow> replacer" where
  "rowHeaderFix h config tr c iss =
     (case firstMatch tdRe True tr of
        None \<Rightarrow> Inr (tr, iss)
      | Some firstTd \<Rightarrow>
          (let inner = replaceFirst tdCloseRe True (byString [])
                         (replaceFirst tdOpenRe True (byString []) firstTd);
               txt = stripTags inner
           in
           if txt = [] then Inr (tr, iss)
           else
             (let openTag = orStr (firstMatch tdOpenRe True firstTd) (asc ''<td>'');
                  thOpen0 = replaceFirst tdStartRe True (byString (asc ''<th'')) openTag
              in case addOrUpdateAttr thOpen0 (asc ''scope'') (JStr (asc ''row'')) of
                   Inl e \<Rightarrow> Inl e
                 | Inr thOpen1 \<Rightarrow>
                     (case restyle h config thOpen1 of
                        Inl e \<Rightarrow> Inl e
                      | Inr thOpen \<Rightarrow>
                          (let th = thOpen @ inner @ asc ''</th>'';
                               fixed = replaceStr firstTd th tr
                           in Inr (fixed, iss @ [createIssue (asc ''table-row-header'') (asc ''1.3.1'')
                                (asc ''HM1310101C'') LevelA msg_table_row_header firstTd (Some th)
                                True False (Some sug_table_row_header)]))))))"

definition thScopeFix :: "jsval \<Rightarrow> replacer" where
  "thScopeFix config tag c iss =
     (if \<not> blankAttr (getAttr tag (asc ''scope'')) then Inr (tag, iss)
      else
        (case addOrUpdateAttr tag (asc ''scope'') (JStr (asc ''col'')) of
           Inl e \<Rightarrow> Inl e
         | Inr fixed \<Rightarrow>
             Inr (fixed, iss @ [createIssue (asc ''th-scope'') (asc ''1.3.1'') (asc ''HM1310101C'')
               LevelA msg_th_scope tag (Some fixed) True False (Some sug_th_scope)])))"

section \<open>Pass 5: inline styles, and pass 6: style blocks\<close>

text \<open>\<^verbatim>\<open>/\bstyle\s*=\s*("([^"]*)"|'([^']*)')/gi\<close>\<close>

definition styleAttrRe :: re where
  "styleAttrRe = seqs [WordB, lit (asc ''style''), Star (Cls [CSpace]), At (Lit 61), Star (Cls [CSpace]),
     Grp 1 (Alt (seqs [At (Lit 34), Grp 2 (Star (NCls [CU 34])), At (Lit 34)])
                (seqs [At (Lit 39), Grp 3 (Star (NCls [CU 39])), At (Lit 39)]))]"

definition styleAttrFix :: "host \<Rightarrow> jsval \<Rightarrow> replacer" where
  "styleAttrFix h config m c iss =
     (let raw = (case c 2 of Some x \<Rightarrow> x | None \<Rightarrow> cap c 3) in
      case normalizeInlineStyle h raw (basePxOf config) (removeWidthOf config) of
        Inl e \<Rightarrow> Inl e
      | Inr (newStyle, changed) \<Rightarrow>
          if \<not> changed then Inr (m, iss)
          else
            (let quote = (if prefix (asc ''style='' @ [39]) m then [39] else [34]) in
             Inr (asc ''style='' @ quote @ newStyle @ quote,
               iss @ [createIssue (asc ''css-relative-units'') (asc ''1.4.4'') (asc ''CS2140401C'')
                 LevelAA msg_css_units (asc ''style='' @ [34] @ raw @ [34])
                 (Some (asc ''style='' @ [34] @ newStyle @ [34])) True False (Some sug_css_units)])))"

text \<open>
  \<^verbatim>\<open>/<style\b[^>]*>([\s\S]*?)<\/style>/gi\<close>, and inside it
  \<^verbatim>\<open>/font-size\s*:\s*([\d.]+)\s*px\s*;/gi\<close> with the same for \<^verbatim>\<open>pt\<close> and \<^verbatim>\<open>rem\<close>.
\<close>

definition styleTagRe :: re where
  "styleTagRe = seqs [lit (asc ''<style''), WordB, Star (NCls [CU 62]), At (Lit 62),
     Grp 1 (LazyStar anyCU), lit (asc ''</style>'')]"

definition fontSizeRe :: "jstring \<Rightarrow> re" where
  "fontSizeRe u = seqs [lit (asc ''font-size''), Star (Cls [CSpace]), At (Lit 58), Star (Cls [CSpace]),
     Grp 1 (Plus (Cls [CDigit, CU 46])), Star (Cls [CSpace]), lit u, Star (Cls [CSpace]), At (Lit 59)]"

definition fontSizeText :: "jstring \<Rightarrow> jstring" where
  "fontSizeText em = asc ''font-size: '' @ em @ asc '';''"

definition convertCss :: "host \<Rightarrow> jsval \<Rightarrow> jstring \<Rightarrow> error + jstring" where
  "convertCss h config css =
     (case replaceAllE (fontSizeRe (asc ''px'')) True
             (\<lambda>n. case emFromPxJS h (basePxOf config) n of
                     Inl e \<Rightarrow> Inl e
                   | Inr em \<Rightarrow> Inr (fontSizeText em)) css of
        Inl e \<Rightarrow> Inl e
      | Inr (css1, c1) \<Rightarrow>
          Inr (fst (replaceAllC (fontSizeRe (asc ''rem'')) True (\<lambda>n. fontSizeText (emFromRem h n))
            (fst (replaceAllC (fontSizeRe (asc ''pt'')) True (\<lambda>n. fontSizeText (emFromPt h n)) css1)))))"

definition styleTagFix :: "host \<Rightarrow> jsval \<Rightarrow> replacer" where
  "styleTagFix h config full c iss =
     (let css = cap c 1 in
      case convertCss h config css of
        Inl e \<Rightarrow> Inl e
      | Inr converted \<Rightarrow>
          Inr (asc ''<style>'' @ converted @ asc ''</style>'',
            if converted \<noteq> css
            then iss @ [createIssue (asc ''css-style-tag'') (asc ''1.4.4'') (asc ''CS2140401C'')
              LevelAA msg_css_style_tag snip_style_tag (Some snip_style_tag) True False None]
            else iss))"


section \<open>Loops over \<^verbatim>\<open>exec\<close>\<close>

text \<open>
  \<^verbatim>\<open>while ((m = re.exec(s)) !== null)\<close> searches on from the end of the last match. The
  loop ends because a match of its pattern is never empty: \<open>nonnull\<close> is the syntactic
  reason, and the termination proofs below rest on it.
\<close>

fun nonnull :: "re \<Rightarrow> bool" where
  "nonnull (At a) = True"
| "nonnull (Plus a) = True"
| "nonnull (Seq r1 r2) = (nonnull r1 \<or> nonnull r2)"
| "nonnull (Alt r1 r2) = (nonnull r1 \<and> nonnull r2)"
| "nonnull (Grp n r) = nonnull r"
| "nonnull r = False"

lemma rmatch_progress:
  "nonnull r \<Longrightarrow> rmatch ic r p s c k = Some x \<Longrightarrow>
   \<exists>p' s' c'. suffix s' s \<and> length s' < length s \<and> k p' s' c' = Some x"
proof (induction r arbitrary: p s c k)
  case (At a)
  then obtain y ys where "s = y # ys" "k (Some y) ys c = Some x"
    by (auto split: list.splits if_splits)
  then show ?case by (auto intro!: exI[of _ "Some y"] exI[of _ ys] exI[of _ c] suffix_ConsI)
next
  case (Plus a)
  then obtain y ys where s: "s = y # ys" and g: "greedy ic a (Some y) ys (\<lambda>p' s'. k p' s' c) = Some x"
    by (auto split: list.splits if_splits)
  from greedy_sound[OF g] obtain p' s' where *: "suffix s' ys" "k p' s' c = Some x" by blast
  from *(1) have "suffix s' (y # ys)" "length s' < length (y # ys)"
    using suffix_length_le[OF *(1)] by (auto intro: suffix_ConsI)
  with *(2) show ?case unfolding s by blast
next
  case (Seq r1 r2)
  from Seq.prems have m: "rmatch ic r1 p s c (\<lambda>p' s' c'. rmatch ic r2 p' s' c' k) = Some x" by simp
  show ?case
  proof (cases "nonnull r1")
    case True
    from Seq.IH(1)[OF True m] obtain p1 s1 c1
      where 1: "suffix s1 s" "length s1 < length s" "rmatch ic r2 p1 s1 c1 k = Some x"
      by blast
    from rmatch_sound[OF 1(3)] obtain p2 s2 c2 where 2: "suffix s2 s1" "k p2 s2 c2 = Some x" by blast
    from 1 2 have "suffix s2 s" "length s2 < length s"
      using suffix_length_le[OF 2(1)] by (auto intro: suffix_order.trans)
    with 2 show ?thesis by blast
  next
    case False
    with Seq.prems have nn: "nonnull r2" by simp
    from rmatch_sound[OF m] obtain p1 s1 c1 where 1: "suffix s1 s" "rmatch ic r2 p1 s1 c1 k = Some x"
      by blast
    from Seq.IH(2)[OF nn 1(2)] obtain p2 s2 c2
      where 2: "suffix s2 s1" "length s2 < length s1" "k p2 s2 c2 = Some x" by blast
    from 1 2 have "suffix s2 s" "length s2 < length s"
      using suffix_length_le[OF 1(1)] by (auto intro: suffix_order.trans)
    with 2 show ?thesis by blast
  qed
next
  case (Alt r1 r2)
  then show ?case by (auto split: option.splits)
next
  case (Grp n r)
  from Grp.prems
  have "rmatch ic r p s c (\<lambda>p' s' c'. k p' s' (c'(n \<mapsto> take (length s - length s') s))) = Some x"
    and "nonnull r" by simp_all
  from Grp.IH[OF this(2) this(1)] show ?case by blast
qed simp_all

lemma search_nonempty:
  assumes "nonnull r" "search r ic p s = Some (pre, m, post, c)"
  shows "m \<noteq> []"
  using assms(2)
proof (induction s arbitrary: p pre)
  case Nil
  then obtain s' where "rmatch ic r p [] (\<lambda>_. None) (\<lambda>p' s' c'. Some (s', c')) = Some (s', c)"
    by (auto split: option.splits)
  from rmatch_progress[OF assms(1) this] show ?case by auto
next
  case (Cons y ys)
  show ?case
  proof (cases "rmatch ic r p (y # ys) (\<lambda>_. None) (\<lambda>p' s' c'. Some (s', c'))")
    case None
    with Cons.prems obtain pre' where "search r ic (Some y) ys = Some (pre', m, post, c)"
      by (auto split: option.splits)
    with Cons.IH show ?thesis by blast
  next
    case (Some z)
    obtain s' c' where z: "z = (s', c')" by (cases z)
    from rmatch_progress[OF assms(1) Some] z have "length s' < length (y # ys)" by auto
    moreover from Cons.prems Some z have "m = take (length (y # ys) - length s') (y # ys)" by auto
    ultimately show ?thesis by auto
  qed
qed

lemma search_shorter:
  assumes "nonnull r" "search r ic p s = Some (pre, m, post, c)"
  shows "length post < length s"
proof -
  from search_sound[OF assms(2)] have "s = pre @ m @ post" .
  moreover from search_nonempty[OF assms] have "m \<noteq> []" .
  ultimately show ?thesis by (cases m) auto
qed


section \<open>Pass 7: form controls\<close>

text \<open>
  \<^verbatim>\<open>/<label\b[^>]*\bfor\s*=\s*("([^"\n]+)"|'([^'\n]+)'|([^\s>]+))/gi\<close> and
  \<^verbatim>\<open>/<(input|select|textarea)\b[^>]*>/gi\<close>.
\<close>

definition labelRe :: re where
  "labelRe = seqs [lit (asc ''<label''), WordB, Star (NCls [CU 62]), WordB, lit (asc ''for''),
     Star (Cls [CSpace]), At (Lit 61), Star (Cls [CSpace]),
     Grp 1 (alts
       [seqs [At (Lit 34), Grp 2 (Plus (NCls [CU 34, CU 10])), At (Lit 34)],
        seqs [At (Lit 39), Grp 3 (Plus (NCls [CU 39, CU 10])), At (Lit 39)],
        Grp 4 (Plus (NCls [CSpace, CU 62]))])]"

lemma nonnull_labelRe: "nonnull labelRe"
  by (simp add: labelRe_def asc_def)

text \<open>The loop that fills \<^verbatim>\<open>labelForSet\<close> (kept as a list; only membership is asked).\<close>

function labelLoop :: "jstring \<Rightarrow> jstring \<Rightarrow> jstring list \<Rightarrow> jstring list" where
  "labelLoop bef s labels =
     (case search labelRe True (lastOpt bef) s of
        None \<Rightarrow> labels
      | Some (pre, m, post, c) \<Rightarrow>
          (let v = js_trim (case c 2 of Some x \<Rightarrow> x
                            | None \<Rightarrow> (case c 3 of Some x \<Rightarrow> x | None \<Rightarrow> cap c 4))
           in labelLoop (bef @ pre @ m) post (if v \<noteq> [] then labels @ [v] else labels)))"
  by pat_completeness auto
termination
proof (relation "measure (\<lambda>(bef, s, labels). length s)", goal_cases)
  case 1
  then show ?case by simp
next
  case (2 bef s labels x2 pre y m z post c v)
  then have "search labelRe True (lastOpt bef) s = Some (pre, m, post, c)" by simp
  from search_shorter[OF nonnull_labelRe this] show ?case by simp
qed

declare labelLoop.simps [simp del]

definition inputRe :: re where
  "inputRe = seqs [At (Lit 60),
     Grp 1 (alts [lit (asc ''input''), lit (asc ''select''), lit (asc ''textarea'')]), WordB,
     Star (NCls [CU 62]), At (Lit 62)]"

definition formLabelCheck :: "host \<Rightarrow> jstring list \<Rightarrow> replacer" where
  "formLabelCheck h labelForSet tag c iss =
     (if toLowerCase h (orStr (getAttr tag (asc ''type'')) []) = asc ''hidden'' then Inr (tag, iss)
      else
        (let ariaLabel = getAttr tag (asc ''aria-label'');
             ariaLabelledby = getAttr tag (asc ''aria-labelledby'');
             ident = (case getAttr tag (asc ''id'') of None \<Rightarrow> [] | Some t \<Rightarrow> js_trim t);
             hasLabel = (\<not> blankAttr ariaLabel \<or> \<not> blankAttr ariaLabelledby
                          \<or> (ident \<noteq> [] \<and> ident \<in> set labelForSet))
         in
         if hasLabel then Inr (tag, iss)
         else Inr (tag, iss @ [createIssue (asc ''form-label'') (asc ''1.3.1'') (asc ''HM1330201C'')
                LevelA msg_form_label tag None False True
                (Some (if ident \<noteq> [] then sug_form_label_id_pre @ ident @ sug_form_label_id_post
                       else sug_form_label_noid))])))"

section \<open>Pass 8: skip link\<close>

text \<open>
  \<^verbatim>\<open>/<(nav|header)\b/i\<close>, \<^verbatim>\<open>/<main\b/i\<close>, and the two patterns of \<^verbatim>\<open>hasSkip\<close>: an anchor
  whose \<^verbatim>\<open>href\<close> is one of six quoted targets or any unquoted run, followed by one of
  five link texts; or an anchor whose \<^verbatim>\<open>href\<close> is one of the six quoted targets.
\<close>

definition navRe :: re where
  "navRe = seqs [At (Lit 60), Grp 1 (Alt (lit (asc ''nav'')) (lit (asc ''header''))), WordB]"

definition mainRe :: re where
  "mainRe = seqs [lit (asc ''<main''), WordB]"

definition skipTargets :: "re list" where
  "skipTargets =
     [lit ([34] @ asc ''#main'' @ [34]), lit ([39] @ asc ''#main'' @ [39]),
      lit ([34] @ asc ''#content'' @ [34]), lit ([39] @ asc ''#content'' @ [39]),
      lit ([34] @ asc ''#main-content'' @ [34]), lit ([39] @ asc ''#main-content'' @ [39])]"

definition skipTextRe :: re where
  "skipTextRe = seqs [lit (asc ''<a''), WordB, Star (NCls [CU 62]), WordB, lit (asc ''href''),
     Star (Cls [CSpace]), At (Lit 61), Star (Cls [CSpace]),
     Grp 1 (alts (skipTargets @ [Plus (NCls [CSpace, CU 62])])), WordB,
     Star (NCls [CU 62]), At (Lit 62), Star (Cls [CSpace]),
     Grp 2 (alts [lit [36339, 21040, 20027, 35201, 20839, 23481], lit [36339, 33267, 20027, 35201, 20839, 23481],
                  lit (asc ''Skip to main''), lit (asc ''skip to main''), lit (asc ''skip'')]),
     Star (Cls [CSpace]), lit (asc ''</a>'')]"

definition skipHrefRe :: re where
  "skipHrefRe = seqs [lit (asc ''<a''), WordB, Star (NCls [CU 62]), WordB, lit (asc ''href''),
     Star (Cls [CSpace]), At (Lit 61), Star (Cls [CSpace]), Grp 1 (alts skipTargets)]"

definition skipLinkCheck :: "jstring \<Rightarrow> issue list \<Rightarrow> issue list" where
  "skipLinkCheck repaired iss =
     (let hasNavOrHeader = test navRe True repaired;
          hasMain = test mainRe True repaired;
          hasSkip = (test skipTextRe True repaired \<or> test skipHrefRe True repaired)
      in
      if (hasNavOrHeader \<or> hasMain) \<and> \<not> hasSkip
      then iss @ [createIssue (asc ''skip-link'') (asc ''2.4.1'') (asc ''HM1240101C'') LevelA
             msg_skip_link (asc ''(document)'') None False True (Some sug_skip_link)]
      else iss)"

section \<open>Pass 9: colour contrast, and pass 10: fake buttons\<close>

text \<open>
  \<^verbatim>\<open>/style\s*=\s*("[^"]*\bcolor\s*:\s*[^;\"]+[^"]*"|'[^']*\bcolor\s*:\s*[^;']+[^']*')/gi\<close> and
  \<^verbatim>\<open>/background-color\s*:/i\<close>.
\<close>

definition colorStyleRe :: re where
  "colorStyleRe = seqs [lit (asc ''style''), Star (Cls [CSpace]), At (Lit 61), Star (Cls [CSpace]),
     Grp 1 (Alt
       (seqs [At (Lit 34), Star (NCls [CU 34]), WordB, lit (asc ''color''), Star (Cls [CSpace]),
              At (Lit 58), Star (Cls [CSpace]), Plus (NCls [CU 59, CU 34]), Star (NCls [CU 34]),
              At (Lit 34)])
       (seqs [At (Lit 39), Star (NCls [CU 39]), WordB, lit (asc ''color''), Star (Cls [CSpace]),
              At (Lit 58), Star (Cls [CSpace]), Plus (NCls [CU 59, CU 39]), Star (NCls [CU 39]),
              At (Lit 39)]))]"

definition bgColorRe :: re where
  "bgColorRe = seqs [lit (asc ''background-color''), Star (Cls [CSpace]), At (Lit 58)]"

lemma nonnull_colorStyleRe: "nonnull colorStyleRe"
  by (simp add: colorStyleRe_def asc_def)

definition colorIssue :: "jstring \<Rightarrow> issue" where
  "colorIssue styleAttr =
     createIssue (asc ''color-contrast'') (asc ''1.4.3'') (asc ''CS2140301C'') LevelAA
       msg_color_contrast styleAttr None False True (Some sug_color_contrast)"

function colorLoop :: "jstring \<Rightarrow> jstring \<Rightarrow> nat \<Rightarrow> issue list \<Rightarrow> issue list" where
  "colorLoop bef s warned iss =
     (case search colorStyleRe True (lastOpt bef) s of
        None \<Rightarrow> iss
      | Some (pre, m, post, c) \<Rightarrow>
          if test bgColorRe True m then colorLoop (bef @ pre @ m) post warned iss
          else if warned + 1 > 5 then iss
          else colorLoop (bef @ pre @ m) post (warned + 1) (iss @ [colorIssue m]))"
  by pat_completeness auto
termination
proof (relation "measure (\<lambda>(bef, s, warned, iss). length s)", goal_cases)
  case 1
  then show ?case by simp
next
  case (2 bef s warned iss x2 pre y m z post c)
  then have "search colorStyleRe True (lastOpt bef) s = Some (pre, m, post, c)" by simp
  from search_shorter[OF nonnull_colorStyleRe this] show ?case by simp
next
  case (3 bef s warned iss x2 pre y m z post c)
  then have "search colorStyleRe True (lastOpt bef) s = Some (pre, m, post, c)" by simp
  from search_shorter[OF nonnull_colorStyleRe this] show ?case by simp
qed

declare colorLoop.simps [simp del]

text \<open>
  \<^verbatim>\<open>/<(div|span)\b[^>]*\bonclick\s*=\s*("[^"]*"|'[^']*'|[^\s>]+)[^>]*>/gi\<close>,
  \<^verbatim>\<open>/\brole\s*=\s*("button"|'button')/i\<close> and \<^verbatim>\<open>/\btabindex\s*=\s*("0"|'0'|0)\b/i\<close>.
\<close>

definition fakeBtnRe :: re where
  "fakeBtnRe = seqs [At (Lit 60), Grp 1 (Alt (lit (asc ''div'')) (lit (asc ''span''))), WordB,
     Star (NCls [CU 62]), WordB, lit (asc ''onclick''), Star (Cls [CSpace]), At (Lit 61),
     Star (Cls [CSpace]),
     Grp 2 (alts [seqs [At (Lit 34), Star (NCls [CU 34]), At (Lit 34)],
                  seqs [At (Lit 39), Star (NCls [CU 39]), At (Lit 39)],
                  Plus (NCls [CSpace, CU 62])]),
     Star (NCls [CU 62]), At (Lit 62)]"

definition roleRe :: re where
  "roleRe = seqs [WordB, lit (asc ''role''), Star (Cls [CSpace]), At (Lit 61), Star (Cls [CSpace]),
     Grp 1 (Alt (lit ([34] @ asc ''button'' @ [34])) (lit ([39] @ asc ''button'' @ [39])))]"

definition tabindexRe :: re where
  "tabindexRe = seqs [WordB, lit (asc ''tabindex''), Star (Cls [CSpace]), At (Lit 61),
     Star (Cls [CSpace]), Grp 1 (alts [lit [34, 48, 34], lit [39, 48, 39], lit [48]]), WordB]"

lemma nonnull_fakeBtnRe: "nonnull fakeBtnRe"
  by (simp add: fakeBtnRe_def asc_def)

definition keyboardReady :: "jstring \<Rightarrow> bool" where
  "keyboardReady tag \<longleftrightarrow> test roleRe True tag \<and> test tabindexRe True tag"

definition fakeIssue :: "jstring \<Rightarrow> issue" where
  "fakeIssue tag =
     createIssue (asc ''fake-button'') (asc ''2.1.1'') (asc ''HM2110101C'') LevelA
       msg_fake_button tag None False True (Some sug_fake_button)"

function fakeLoop :: "jstring \<Rightarrow> jstring \<Rightarrow> nat \<Rightarrow> issue list \<Rightarrow> issue list" where
  "fakeLoop bef s count iss =
     (case search fakeBtnRe True (lastOpt bef) s of
        None \<Rightarrow> iss
      | Some (pre, tag, post, c) \<Rightarrow>
          if keyboardReady tag then fakeLoop (bef @ pre @ tag) post count iss
          else if count + 1 > 10 then iss
          else fakeLoop (bef @ pre @ tag) post (count + 1) (iss @ [fakeIssue tag]))"
  by pat_completeness auto
termination
proof (relation "measure (\<lambda>(bef, s, count, iss). length s)", goal_cases)
  case 1
  then show ?case by simp
next
  case (2 bef s count iss x2 pre y tag z post c)
  then have "search fakeBtnRe True (lastOpt bef) s = Some (pre, tag, post, c)" by simp
  from search_shorter[OF nonnull_fakeBtnRe this] show ?case by simp
next
  case (3 bef s count iss x2 pre y tag z post c)
  then have "search fakeBtnRe True (lastOpt bef) s = Some (pre, tag, post, c)" by simp
  from search_shorter[OF nonnull_fakeBtnRe this] show ?case by simp
qed

declare fakeLoop.simps [simp del]


section \<open>The passes in sequence\<close>

text \<open>
  Each pass takes the repaired text and the issues so far and gives the new ones; a pass
  behind a rule switch that is off changes nothing.
\<close>

type_synonym pstate = "jstring \<times> issue list"

definition framePass :: "jsval \<Rightarrow> pstate \<Rightarrow> error + pstate" where
  "framePass config st =
     (if ruleEnabled config (asc ''frame-title'')
      then replaceAllM frameRe True (frameTitleFix config) (fst st) (snd st)
      else Inr st)"

definition imgPass :: "jsval \<Rightarrow> pstate \<Rightarrow> error + pstate" where
  "imgPass config st =
     (if ruleEnabled config (asc ''img-alt'')
      then replaceAllM imgRe True (imgAltFix config) (fst st) (snd st)
      else Inr st)"

definition linkPass :: "host \<Rightarrow> jsval \<Rightarrow> pstate \<Rightarrow> error + pstate" where
  "linkPass h config st = replaceAllM linkRe True (linkFix h config) (fst st) (snd st)"

definition rowHeaderPass :: "host \<Rightarrow> jsval \<Rightarrow> pstate \<Rightarrow> error + pstate" where
  "rowHeaderPass h config st =
     (if ruleEnabled config (asc ''table-row-header'')
      then replaceAllM trRe True (rowHeaderFix h config) (fst st) (snd st)
      else Inr st)"

definition thScopePass :: "jsval \<Rightarrow> pstate \<Rightarrow> error + pstate" where
  "thScopePass config st =
     (if ruleEnabled config (asc ''th-scope'')
      then replaceAllM thRe True (thScopeFix config) (fst st) (snd st)
      else Inr st)"

definition inlineStylePass :: "host \<Rightarrow> jsval \<Rightarrow> pstate \<Rightarrow> error + pstate" where
  "inlineStylePass h config st =
     (if ruleEnabled config (asc ''css-relative-units'')
      then replaceAllM styleAttrRe True (styleAttrFix h config) (fst st) (snd st)
      else Inr st)"

definition styleTagPass :: "host \<Rightarrow> jsval \<Rightarrow> pstate \<Rightarrow> error + pstate" where
  "styleTagPass h config st =
     (if ruleEnabled config (asc ''css-style-tag'')
      then replaceAllM styleTagRe True (styleTagFix h config) (fst st) (snd st)
      else Inr st)"

definition formLabelPass :: "host \<Rightarrow> jsval \<Rightarrow> pstate \<Rightarrow> error + pstate" where
  "formLabelPass h config st =
     (if ruleEnabled config (asc ''form-label'')
      then replaceAllM inputRe True (formLabelCheck h (labelLoop [] (fst st) [])) (fst st) (snd st)
      else Inr st)"

definition skipLinkPass :: "jsval \<Rightarrow> pstate \<Rightarrow> error + pstate" where
  "skipLinkPass config st =
     (if ruleEnabled config (asc ''skip-link'')
      then Inr (fst st, skipLinkCheck (fst st) (snd st))
      else Inr st)"

definition colorContrastPass :: "jsval \<Rightarrow> pstate \<Rightarrow> error + pstate" where
  "colorContrastPass config st =
     (if ruleEnabled config (asc ''color-contrast'')
      then Inr (fst st, colorLoop [] (fst st) 0 (snd st))
      else Inr st)"

definition fakeButtonPass :: "jsval \<Rightarrow> pstate \<Rightarrow> error + pstate" where
  "fakeButtonPass config st =
     (if ruleEnabled config (asc ''fake-button'')
      then Inr (fst st, fakeLoop [] (fst st) 0 (snd st))
      else Inr st)"

fun runPasses :: "(pstate \<Rightarrow> error + pstate) list \<Rightarrow> pstate \<Rightarrow> error + pstate" where
  "runPasses [] st = Inr st"
| "runPasses (f # fs) st = (case f st of Inl e \<Rightarrow> Inl e | Inr st' \<Rightarrow> runPasses fs st')"

definition passes :: "host \<Rightarrow> jsval \<Rightarrow> (pstate \<Rightarrow> error + pstate) list" where
  "passes h config =
     [framePass config, imgPass config, linkPass h config, rowHeaderPass h config,
      thScopePass config, inlineStylePass h config, styleTagPass h config,
      formLabelPass h config, skipLinkPass config, colorContrastPass config,
      fakeButtonPass config]"

section \<open>Locations and the result\<close>

text \<open>
  \<^verbatim>\<open>computeLineCol\<close>. The column reads the last element of \<^verbatim>\<open>before.split("\n")\<close>; were
  the array empty, reading \<^verbatim>\<open>.length\<close> of \<^verbatim>\<open>undefined\<close> would throw.
\<close>

definition computeLineCol :: "jstring \<Rightarrow> nat \<Rightarrow> error + nat \<times> nat" where
  "computeLineCol s idx =
     (if idx = 0 then Inr (1, 1)
      else
        (let lines = splitOn 10 (take idx s) in
         case rev lines of
           [] \<Rightarrow> Inl TypeError
         | l # _ \<Rightarrow> Inr (length lines, length l + 1)))"

definition locate :: "jstring \<Rightarrow> issue \<Rightarrow> error + issue" where
  "locate html i =
     (if startOffset i \<noteq> 0 \<or> line i \<noteq> 0 then Inr i
      else
        (let snippet = originalSnippet i in
         if snippet = [] \<or> snippet = asc ''(document)'' then Inr i
         else
           (case indexOf html snippet of
              None \<Rightarrow> Inr i
            | Some idx \<Rightarrow>
                (case computeLineCol html idx of
                   Inl e \<Rightarrow> Inl e
                 | Inr (ln, col) \<Rightarrow>
                     Inr (i\<lparr> startOffset := idx, endOffset := idx + length snippet,
                              line := ln, column := col \<rparr>)))))"

fun locateAll :: "jstring \<Rightarrow> issue list \<Rightarrow> error + issue list" where
  "locateAll html [] = Inr []"
| "locateAll html (i # is) =
     (case locate html i of
        Inl e \<Rightarrow> Inl e
      | Inr i' \<Rightarrow> (case locateAll html is of Inl e \<Rightarrow> Inl e | Inr is' \<Rightarrow> Inr (i' # is')))"

record summary =
  totalIssues :: nat
  autoFixed :: nat
  needsManualReview :: nat

record repairResult =
  originalHtml :: jstring
  repairedHtml :: jstring
  issues :: "issue list"
  summary :: summary

definition repairHtml :: "host \<Rightarrow> jstring \<Rightarrow> jsval \<Rightarrow> error + repairResult" where
  "repairHtml h html config =
     (case runPasses (passes h config) (html, []) of
        Inl e \<Rightarrow> Inl e
      | Inr (repaired, found) \<Rightarrow>
          (case locateAll html found of
             Inl e \<Rightarrow> Inl e
           | Inr located \<Rightarrow>
               Inr \<lparr> originalHtml = html, repairedHtml = repaired, issues = located,
                     summary = \<lparr> totalIssues = length located,
                       autoFixed = length (filter issue.autoFixed located),
                       needsManualReview = length (filter issue.needsManualReview located) \<rparr> \<rparr>))"


section \<open>A host for concrete runs\<close>

text \<open>
  The concrete runs below use ASCII markup with Chinese text, on which \<^verbatim>\<open>toLowerCase\<close>
  maps \<^verbatim>\<open>A-Z\<close> to \<^verbatim>\<open>a-z\<close> and leaves every other unit as it is. None of them gets as
  far as the arithmetic of a length in \<^verbatim>\<open>px\<close>, \<^verbatim>\<open>pt\<close> or \<^verbatim>\<open>rem\<close> (the one run with a
  length throws when it converts \<^verbatim>\<open>basePx\<close>): the three conversions are never called, and
  \<open>host0\<close> lets them return the digits.
\<close>

definition asciiLower :: "jstring \<Rightarrow> jstring" where
  "asciiLower s = map (\<lambda>c. if 65 \<le> c \<and> c \<le> 90 then c + 32 else c) s"

definition host0 :: host where
  "host0 = \<lparr> toLowerCase = asciiLower, emFromPx = (\<lambda>n basePx. n), emFromPt = (\<lambda>n. n),
              emFromRem = (\<lambda>n. n) \<rparr>"


section \<open>The definitions a run unfolds\<close>

text \<open>
  The simplifier evaluates a run of the engine on a given text with these definitions;
  \<open>engine_defs\<close> leaves what reads the configuration folded, for the runs in which the
  configuration is not given.
\<close>

lemmas string_defs = asc_def isSpace_def isDigit_def isWord_def canon_def wordAt_def nextOf_def
  lastOpt_def js_trim_def includes_str_def cap_def

lemmas regex_defs = scan.simps replaceFirst_def replaceAll_def replaceAllC_def replaceAllE_def
  replaceAllM_def test_def replaceStr_def firstMatch_def

lemmas engine_defs = anyCU_def commentRe_def scriptRe_def styleBlockRe_def anyTagRe_def nbspRe_def
  spacesRe_def stripTags_def unitRe_def parseDecl_def emFromPxJS_def convertDecl_def
  isPadding_def padKeys_def presentVals_def renderDecls_def normalizeInlineStyle_def attrRe_def
  quoteRe_def gtEndRe_def rawValue_def attrText_def addOrUpdateAttr_def getAttr_def
  createIssue_def List.map_filter_def Let_def pleaseFill_def wideColon_def orStr_def
  blankAttr_def

lemmas helper_defs = engine_defs defaulted_def nullish_def orElse_def ruleEnabled_def pref_def
  basePxOf_def removeWidthOf_def

lemmas pass_defs = frameRe_def frameTitleFix_def imgRe_def imgAltFix_def linkRe_def aOpenRe_def
  aCloseRe_def hrefRe_def textSlotRe_def newWindowRe_def linkImgFix_def linkNameOf_def
  newWindowHint_def mergedTitle_def emptyLink_def newWindowIssue_def titleTextOf_def namedLink_def
  linkFix_def trRe_def tdRe_def tdOpenRe_def tdCloseRe_def tdStartRe_def thRe_def restyle_def
  rowHeaderFix_def thScopeFix_def styleAttrRe_def styleAttrFix_def styleTagRe_def fontSizeRe_def
  fontSizeText_def convertCss_def styleTagFix_def labelRe_def labelLoop.simps inputRe_def
  formLabelCheck_def navRe_def mainRe_def skipTargets_def skipTextRe_def skipHrefRe_def
  skipLinkCheck_def colorStyleRe_def bgColorRe_def colorIssue_def colorLoop.simps fakeBtnRe_def
  roleRe_def tabindexRe_def keyboardReady_def fakeIssue_def fakeLoop.simps framePass_def
  imgPass_def linkPass_def rowHeaderPass_def thScopePass_def inlineStylePass_def styleTagPass_def
  formLabelPass_def skipLinkPass_def colorContrastPass_def fakeButtonPass_def passes_def
  computeLineCol_def locate_def repairHtml_def asciiLower_def host0_def


section \<open>What the passes record\<close>

text \<open>
  An issue as \<^verbatim>\<open>createIssue\<close> leaves it has no location yet (\<open>fresh\<close>). \<open>issueOf config ids\<close>
  says what holds of every issue a pass pushes: it is fresh, it has a fixed snippet when it
  is marked as fixed, and its rule is one of \<open>ids\<close> and is switched on.
\<close>

definition fresh :: "issue \<Rightarrow> bool" where
  "fresh i \<longleftrightarrow> line i = 0 \<and> column i = 0 \<and> startOffset i = 0 \<and> endOffset i = 0"

definition issueOf :: "jsval \<Rightarrow> jstring list \<Rightarrow> issue \<Rightarrow> bool" where
  "issueOf config rids i \<longleftrightarrow>
     fresh i \<and> (issue.autoFixed i \<longrightarrow> fixedSnippet i \<noteq> None)
     \<and> ruleId i \<in> set rids \<and> ruleEnabled config (ruleId i)"

definition appendsOnly :: "(issue \<Rightarrow> bool) \<Rightarrow> replacer \<Rightarrow> bool" where
  "appendsOnly P f \<longleftrightarrow>
     (\<forall>m c iss out iss'. f m c iss = Inr (out, iss') \<longrightarrow> (\<exists>new. iss' = iss @ new \<and> list_all P new))"

definition passAppends :: "(issue \<Rightarrow> bool) \<Rightarrow> (pstate \<Rightarrow> error + pstate) \<Rightarrow> bool" where
  "passAppends P g \<longleftrightarrow>
     (\<forall>st st'. g st = Inr st' \<longrightarrow> (\<exists>new. snd st' = snd st @ new \<and> list_all P new))"

lemma segsM_appends:
  assumes "appendsOnly P f"
  shows "segsM f segs iss = Inr (out, iss') \<Longrightarrow> \<exists>new. iss' = iss @ new \<and> list_all P new"
proof (induction segs arbitrary: iss out)
  case Nil
  then show ?case by simp
next
  case (Cons sg segs)
  obtain gap m c b a where sg: "sg = (gap, m, c, b, a)" by (cases sg)
  from Cons.prems sg obtain o1 i1 o2 where
    1: "f m c iss = Inr (o1, i1)" and 2: "segsM f segs i1 = Inr (o2, iss')"
    by (auto split: sum.splits prod.splits)
  from assms 1 obtain n1 where n1: "i1 = iss @ n1" "list_all P n1"
    unfolding appendsOnly_def by blast
  from Cons.IH[OF 2] obtain n2 where n2: "iss' = i1 @ n2" "list_all P n2" by blast
  from n1 n2 show ?case by (intro exI[of _ "n1 @ n2"]) simp
qed

lemma replaceAllM_appends:
  assumes "appendsOnly P f"
  shows "passAppends P (\<lambda>st. replaceAllM r ic f (fst st) (snd st))"
  unfolding passAppends_def replaceAllM_def
  using segsM_appends[OF assms]
  by (auto split: sum.splits prod.splits)

lemma passAppends_id: "passAppends P Inr"
  by (simp add: passAppends_def)

lemma runPasses_appends:
  assumes "list_all (passAppends P) fs"
  shows "runPasses fs st = Inr st' \<Longrightarrow> \<exists>new. snd st' = snd st @ new \<and> list_all P new"
  using assms
proof (induction fs arbitrary: st)
  case Nil
  then show ?case by simp
next
  case (Cons g gs)
  from Cons.prems obtain s1 where 1: "g st = Inr s1" and 2: "runPasses gs s1 = Inr st'"
    by (auto split: sum.splits)
  from Cons.prems(2) have pg: "passAppends P g" and pgs: "list_all (passAppends P) gs" by simp_all
  from pg 1 obtain n1 where n1: "snd s1 = snd st @ n1" "list_all P n1"
    unfolding passAppends_def by blast
  from Cons.IH[OF 2 pgs] obtain n2 where n2: "snd st' = snd s1 @ n2" "list_all P n2" by blast
  from n1 n2 show ?case by (intro exI[of _ "n1 @ n2"]) simp
qed

lemma issueOf_created:
  "rid \<in> set rids \<Longrightarrow> ruleEnabled config rid \<Longrightarrow> (af \<Longrightarrow> fixed \<noteq> None) \<Longrightarrow>
   issueOf config rids (createIssue rid wcag tw lv msg orig fixed af nmr sug)"
  by (auto simp: issueOf_def fresh_def createIssue_def)

lemma frameTitleFix_appends:
  "ruleEnabled config (asc ''frame-title'') \<Longrightarrow>
   appendsOnly (issueOf config [asc ''frame-title'']) (frameTitleFix config)"
  unfolding appendsOnly_def frameTitleFix_def Let_def
  by (auto split: if_splits sum.splits intro!: issueOf_created)

lemma imgAltFix_appends:
  "ruleEnabled config (asc ''img-alt'') \<Longrightarrow>
   appendsOnly (issueOf config [asc ''img-alt'']) (imgAltFix config)"
  unfolding appendsOnly_def imgAltFix_def Let_def
  by (auto split: if_splits sum.splits option.splits intro!: issueOf_created)

lemma linkImgFix_appends:
  "ruleEnabled config (asc ''img-alt'') \<Longrightarrow>
   appendsOnly (issueOf config [asc ''img-alt'']) (linkImgFix config)"
  unfolding appendsOnly_def linkImgFix_def Let_def
  by (auto split: if_splits sum.splits option.splits intro!: issueOf_created)

definition linkIds :: "jstring list" where
  "linkIds = [asc ''img-alt'', asc ''link-text'', asc ''link-title'', asc ''link-new-window'']"

lemma emptyLink_appends:
  "emptyLink config openTag full iss = Inr (out, iss') \<Longrightarrow>
   \<exists>new. iss' = iss @ new \<and> list_all (issueOf config linkIds) new"
  unfolding emptyLink_def Let_def linkIds_def
  by (auto split: if_splits sum.splits intro!: issueOf_created)

lemma namedLink_appends:
  "namedLink h config openTag inner full linkName iss = Inr (out, iss') \<Longrightarrow>
   \<exists>new. iss' = iss @ new \<and> list_all (issueOf config linkIds) new"
  unfolding namedLink_def Let_def linkIds_def newWindowIssue_def
  by (auto split: if_splits sum.splits intro!: issueOf_created)

lemma linkFix_appends: "appendsOnly (issueOf config linkIds) (linkFix h config)"
proof -
  have img: "\<exists>new. i1 = iss @ new \<and> list_all (issueOf config linkIds) new"
    if "(if ruleEnabled config (asc ''img-alt'')
         then replaceAllM imgRe True (linkImgFix config) inner0 iss
         else Inr (inner0, iss)) = Inr (inner, i1)" for inner0 iss inner i1
  proof (cases "ruleEnabled config (asc ''img-alt'')")
    case True
    from replaceAllM_appends[OF linkImgFix_appends[OF True], of imgRe True] that True
    obtain new where "i1 = iss @ new" "list_all (issueOf config [asc ''img-alt'']) new"
      unfolding passAppends_def by fastforce
    then show ?thesis
      by (auto simp: list_all_iff issueOf_def linkIds_def)
  next
    case False
    with that show ?thesis by simp
  qed
  show ?thesis
    unfolding appendsOnly_def
  proof (intro allI impI)
    fix m c iss out iss'
    assume run: "linkFix h config m c iss = Inr (out, iss')"
    show "\<exists>new. iss' = iss @ new \<and> list_all (issueOf config linkIds) new"
    proof (cases "test hrefRe True (orStr (firstMatch aOpenRe True m) (asc ''<a>''))")
      case False
      with run show ?thesis by (simp add: linkFix_def Let_def)
    next
      case True
      with run obtain inner i1 where
        1: "(if ruleEnabled config (asc ''img-alt'')
             then replaceAllM imgRe True (linkImgFix config)
                    (replaceFirst aCloseRe True (byString []) (replaceFirst aOpenRe True (byString []) m)) iss
             else Inr (replaceFirst aCloseRe True (byString []) (replaceFirst aOpenRe True (byString []) m), iss))
            = Inr (inner, i1)"
        and 2: "(let linkName = linkNameOf (stripTags (replaceFirst aCloseRe True (byString [])
                    (replaceFirst aOpenRe True (byString []) m))) inner in
                 if linkName = [] then emptyLink config (orStr (firstMatch aOpenRe True m) (asc ''<a>'')) m i1
                 else namedLink h config (orStr (firstMatch aOpenRe True m) (asc ''<a>'')) inner m linkName i1)
                = Inr (out, iss')"
        by (auto simp: linkFix_def Let_def split: sum.splits prod.splits)
      from img[OF 1] obtain n1 where n1: "i1 = iss @ n1" "list_all (issueOf config linkIds) n1" by blast
      from 2 obtain n2 where n2: "iss' = i1 @ n2" "list_all (issueOf config linkIds) n2"
        by (auto simp: Let_def split: if_splits dest: emptyLink_appends namedLink_appends)
      from n1 n2 show ?thesis by (intro exI[of _ "n1 @ n2"]) simp
    qed
  qed
qed

lemma rowHeaderFix_appends:
  "ruleEnabled config (asc ''table-row-header'') \<Longrightarrow>
   appendsOnly (issueOf config [asc ''table-row-header'']) (rowHeaderFix h config)"
  unfolding appendsOnly_def rowHeaderFix_def Let_def
  by (auto split: if_splits sum.splits option.splits intro!: issueOf_created)

lemma thScopeFix_appends:
  "ruleEnabled config (asc ''th-scope'') \<Longrightarrow>
   appendsOnly (issueOf config [asc ''th-scope'']) (thScopeFix config)"
  unfolding appendsOnly_def thScopeFix_def Let_def
  by (auto split: if_splits sum.splits option.splits intro!: issueOf_created)

lemma styleAttrFix_appends:
  "ruleEnabled config (asc ''css-relative-units'') \<Longrightarrow>
   appendsOnly (issueOf config [asc ''css-relative-units'']) (styleAttrFix h config)"
  unfolding appendsOnly_def styleAttrFix_def Let_def
  by (auto split: if_splits sum.splits option.splits prod.splits intro!: issueOf_created)

lemma styleTagFix_appends:
  "ruleEnabled config (asc ''css-style-tag'') \<Longrightarrow>
   appendsOnly (issueOf config [asc ''css-style-tag'']) (styleTagFix h config)"
  unfolding appendsOnly_def styleTagFix_def Let_def
  by (auto split: if_splits sum.splits option.splits prod.splits intro!: issueOf_created)

lemma formLabelCheck_appends:
  "ruleEnabled config (asc ''form-label'') \<Longrightarrow>
   appendsOnly (issueOf config [asc ''form-label'']) (formLabelCheck h labels)"
  unfolding appendsOnly_def formLabelCheck_def Let_def
  by (auto split: if_splits sum.splits option.splits prod.splits intro!: issueOf_created)

lemma skipLinkCheck_appends:
  "ruleEnabled config (asc ''skip-link'') \<Longrightarrow>
   \<exists>new. skipLinkCheck s iss = iss @ new \<and> list_all (issueOf config [asc ''skip-link'']) new"
  unfolding skipLinkCheck_def Let_def
  by (auto intro!: issueOf_created)

lemma colorLoop_appends:
  "ruleEnabled config (asc ''color-contrast'') \<Longrightarrow>
   \<exists>new. colorLoop bef s warned iss = iss @ new \<and> list_all (issueOf config [asc ''color-contrast'']) new"
proof (induction bef s warned iss rule: colorLoop.induct)
  case (1 bef s warned iss)
  show ?case
  proof (cases "search colorStyleRe True (lastOpt bef) s")
    case None
    then show ?thesis by (subst colorLoop.simps) simp
  next
    case (Some z)
    obtain pre m post c where z: "z = (pre, m, post, c)" by (cases z)
    have ci: "issueOf config [asc ''color-contrast''] (colorIssue m)"
      unfolding colorIssue_def using "1.prems" by (intro issueOf_created) auto
    show ?thesis
    proof (cases "test bgColorRe True m")
      case True
      from "1.IH"(1)[OF Some z[symmetric] refl refl True "1.prems"] Some z True
      show ?thesis by (subst colorLoop.simps) simp
    next
      case False
      show ?thesis
      proof (cases "warned + 1 > 5")
        case True
        with Some z False show ?thesis by (subst colorLoop.simps) simp
      next
        case w: False
        from "1.IH"(2)[OF Some z[symmetric] refl refl False w "1.prems"]
        obtain new where "colorLoop (bef @ pre @ m) post (warned + 1) (iss @ [colorIssue m])
            = (iss @ [colorIssue m]) @ new" "list_all (issueOf config [asc ''color-contrast'']) new"
          by blast
        with Some z False w ci show ?thesis
          by (subst colorLoop.simps) (auto intro!: exI[of _ "colorIssue m # new"])
      qed
    qed
  qed
qed

text \<open>The tags the fake-button loop visits: the successive matches of its pattern.\<close>

definition matchesFrom :: "re \<Rightarrow> jstring \<Rightarrow> jstring \<Rightarrow> jstring list" where
  "matchesFrom r bef s = map (\<lambda>sg. fst (snd sg)) (fst (scan r True bef s))"

definition tagsFound :: "jstring \<Rightarrow> jstring list" where
  "tagsFound s = matchesFrom fakeBtnRe [] s"

lemma matchesFrom_None:
  "search r True (lastOpt bef) s = None \<Longrightarrow> matchesFrom r bef s = []"
  by (simp add: matchesFrom_def scan.simps)

lemma matchesFrom_Some:
  assumes "nonnull r" "search r True (lastOpt bef) s = Some (pre, m, post, c)"
  shows "matchesFrom r bef s = m # matchesFrom r (bef @ pre @ m) post"
proof -
  from search_nonempty[OF assms] have "m \<noteq> []" .
  with assms(2) show ?thesis
    by (simp add: matchesFrom_def scan.simps[of r True bef s] split: prod.splits)
qed

lemma fakeLoop_spec:
  "count \<le> 10 \<Longrightarrow>
   fakeLoop bef s count iss
     = iss @ map fakeIssue (take (10 - count) (filter (\<lambda>t. \<not> keyboardReady t) (matchesFrom fakeBtnRe bef s)))"
proof (induction bef s count iss rule: fakeLoop.induct)
  case (1 bef s count iss)
  show ?case
  proof (cases "search fakeBtnRe True (lastOpt bef) s")
    case None
    then show ?thesis by (subst fakeLoop.simps) (simp add: matchesFrom_None)
  next
    case (Some z)
    obtain pre tag post c where z: "z = (pre, tag, post, c)" by (cases z)
    note ms = matchesFrom_Some[OF nonnull_fakeBtnRe Some[unfolded z]]
    show ?thesis
    proof (cases "keyboardReady tag")
      case True
      from "1.IH"(1)[OF Some z[symmetric] refl refl True "1.prems"] Some z True ms
      show ?thesis by (subst fakeLoop.simps) simp
    next
      case False
      show ?thesis
      proof (cases "count + 1 > 10")
        case True
        with "1.prems" have "10 - count = 0" by simp
        with Some z False True show ?thesis by (subst fakeLoop.simps) simp
      next
        case c: False
        then have le: "count + 1 \<le> 10" by simp
        then have suc: "10 - count = Suc (10 - (count + 1))" by simp
        from "1.IH"(2)[OF Some z[symmetric] refl refl False c le] Some z False c ms
        show ?thesis by (subst fakeLoop.simps) (simp add: suc)
      qed
    qed
  qed
qed

text \<open>The passes and what they append.\<close>

definition quietIds :: "jstring list" where
  "quietIds = [asc ''frame-title'', asc ''img-alt'', asc ''link-text'', asc ''link-title'',
     asc ''link-new-window'', asc ''table-row-header'', asc ''th-scope'', asc ''css-relative-units'',
     asc ''css-style-tag'', asc ''form-label'', asc ''skip-link'', asc ''color-contrast'']"

lemma issueOf_mono: "set a \<subseteq> set b \<Longrightarrow> issueOf config a i \<Longrightarrow> issueOf config b i"
  by (auto simp: issueOf_def)

lemma appendsOnly_mono: "(\<And>i. P i \<Longrightarrow> Q i) \<Longrightarrow> appendsOnly P f \<Longrightarrow> appendsOnly Q f"
  unfolding appendsOnly_def list_all_iff by blast

lemma passAppends_mono: "(\<And>i. P i \<Longrightarrow> Q i) \<Longrightarrow> passAppends P g \<Longrightarrow> passAppends Q g"
  unfolding passAppends_def list_all_iff by blast

lemma passAppends_gated:
  assumes "c \<Longrightarrow> appendsOnly (issueOf config ids) f" "set ids \<subseteq> set quietIds"
  shows "passAppends (issueOf config quietIds)
           (\<lambda>st. if c then replaceAllM r ic f (fst st) (snd st) else Inr st)"
proof (cases c)
  case True
  from assms(1)[OF True] have "appendsOnly (issueOf config quietIds) f"
    by (rule appendsOnly_mono[rotated]) (rule issueOf_mono[OF assms(2)])
  from replaceAllM_appends[OF this] True show ?thesis by simp
next
  case False
  then show ?thesis by (simp add: passAppends_def)
qed

lemma framePass_appends: "passAppends (issueOf config quietIds) (framePass config)"
  unfolding framePass_def[abs_def]
  by (rule passAppends_gated[OF frameTitleFix_appends]) (simp_all add: quietIds_def)

lemma imgPass_appends: "passAppends (issueOf config quietIds) (imgPass config)"
  unfolding imgPass_def[abs_def]
  by (rule passAppends_gated[OF imgAltFix_appends]) (simp_all add: quietIds_def)

lemma linkPass_appends: "passAppends (issueOf config quietIds) (linkPass h config)"
proof -
  have "appendsOnly (issueOf config quietIds) (linkFix h config)"
    by (rule appendsOnly_mono[OF _ linkFix_appends], rule issueOf_mono[rotated], assumption)
       (simp add: linkIds_def quietIds_def)
  from replaceAllM_appends[OF this] show ?thesis by (simp add: linkPass_def[abs_def])
qed

lemma rowHeaderPass_appends: "passAppends (issueOf config quietIds) (rowHeaderPass h config)"
  unfolding rowHeaderPass_def[abs_def]
  by (rule passAppends_gated[OF rowHeaderFix_appends]) (simp_all add: quietIds_def)

lemma thScopePass_appends: "passAppends (issueOf config quietIds) (thScopePass config)"
  unfolding thScopePass_def[abs_def]
  by (rule passAppends_gated[OF thScopeFix_appends]) (simp_all add: quietIds_def)

lemma inlineStylePass_appends: "passAppends (issueOf config quietIds) (inlineStylePass h config)"
  unfolding inlineStylePass_def[abs_def]
  by (rule passAppends_gated[OF styleAttrFix_appends]) (simp_all add: quietIds_def)

lemma styleTagPass_appends: "passAppends (issueOf config quietIds) (styleTagPass h config)"
  unfolding styleTagPass_def[abs_def]
  by (rule passAppends_gated[OF styleTagFix_appends]) (simp_all add: quietIds_def)

lemma formLabelPass_appends: "passAppends (issueOf config quietIds) (formLabelPass h config)"
  unfolding passAppends_def formLabelPass_def
proof (intro allI impI)
  fix st st'
  assume a: "(if ruleEnabled config (asc ''form-label'')
      then replaceAllM inputRe True (formLabelCheck h (labelLoop [] (fst st) [])) (fst st) (snd st)
      else Inr st) = Inr st'"
  show "\<exists>new. snd st' = snd st @ new \<and> list_all (issueOf config quietIds) new"
  proof (cases "ruleEnabled config (asc ''form-label'')")
    case True
    have "appendsOnly (issueOf config quietIds) (formLabelCheck h (labelLoop [] (fst st) []))"
      by (rule appendsOnly_mono[OF _ formLabelCheck_appends[OF True]], rule issueOf_mono[rotated], assumption)
         (simp add: quietIds_def)
    from replaceAllM_appends[OF this, of inputRe True] a True show ?thesis
      unfolding passAppends_def by (cases st') auto
  next
    case False
    with a show ?thesis by auto
  qed
qed

lemma skipLinkPass_appends: "passAppends (issueOf config quietIds) (skipLinkPass config)"
  unfolding passAppends_def skipLinkPass_def
proof (intro allI impI)
  fix st st'
  assume a: "(if ruleEnabled config (asc ''skip-link'') then Inr (fst st, skipLinkCheck (fst st) (snd st))
      else Inr st) = Inr st'"
  show "\<exists>new. snd st' = snd st @ new \<and> list_all (issueOf config quietIds) new"
  proof (cases "ruleEnabled config (asc ''skip-link'')")
    case True
    from skipLinkCheck_appends[OF True, of "fst st" "snd st"] obtain new where
      "skipLinkCheck (fst st) (snd st) = snd st @ new" "list_all (issueOf config [asc ''skip-link'']) new"
      by blast
    moreover have "list_all (issueOf config quietIds) new"
      using calculation(2) by (auto simp: list_all_iff issueOf_def quietIds_def)
    ultimately show ?thesis using a True by auto
  next
    case False
    with a show ?thesis by auto
  qed
qed

lemma colorContrastPass_appends: "passAppends (issueOf config quietIds) (colorContrastPass config)"
  unfolding passAppends_def colorContrastPass_def
proof (intro allI impI)
  fix st st'
  assume a: "(if ruleEnabled config (asc ''color-contrast'') then Inr (fst st, colorLoop [] (fst st) 0 (snd st))
      else Inr st) = Inr st'"
  show "\<exists>new. snd st' = snd st @ new \<and> list_all (issueOf config quietIds) new"
  proof (cases "ruleEnabled config (asc ''color-contrast'')")
    case True
    from colorLoop_appends[OF True, of "[]" "fst st" 0 "snd st"] obtain new where
      "colorLoop [] (fst st) 0 (snd st) = snd st @ new" "list_all (issueOf config [asc ''color-contrast'']) new"
      by blast
    moreover have "list_all (issueOf config quietIds) new"
      using calculation(2) by (auto simp: list_all_iff issueOf_def quietIds_def)
    ultimately show ?thesis using a True by auto
  next
    case False
    with a show ?thesis by auto
  qed
qed

definition quietPasses :: "host \<Rightarrow> jsval \<Rightarrow> (pstate \<Rightarrow> error + pstate) list" where
  "quietPasses h config = butlast (passes h config)"

lemma passes_split: "passes h config = quietPasses h config @ [fakeButtonPass config]"
  by (simp add: quietPasses_def passes_def)

lemma quietPasses_appends: "list_all (passAppends (issueOf config quietIds)) (quietPasses h config)"
  by (simp add: quietPasses_def passes_def framePass_appends imgPass_appends linkPass_appends
      rowHeaderPass_appends thScopePass_appends inlineStylePass_appends styleTagPass_appends
      formLabelPass_appends skipLinkPass_appends colorContrastPass_appends)

lemma runPasses_append:
  "runPasses (fs @ gs) st = (case runPasses fs st of Inl e \<Rightarrow> Inl e | Inr st' \<Rightarrow> runPasses gs st')"
  by (induction fs arbitrary: st) (auto split: sum.splits)

text \<open>What a full run has found before the locations are filled in.\<close>

lemma run_found:
  assumes "runPasses (passes h config) (html, []) = Inr (repaired, found)"
  shows "\<exists>quiet. list_all (issueOf config quietIds) quiet \<and>
           found = quiet @ (if ruleEnabled config (asc ''fake-button'')
                            then map fakeIssue (take 10 (filter (\<lambda>t. \<not> keyboardReady t) (tagsFound repaired)))
                            else [])"
proof -
  from assms obtain st1 where 1: "runPasses (quietPasses h config) (html, []) = Inr st1"
    and 2: "fakeButtonPass config st1 = Inr (repaired, found)"
    by (auto simp: passes_split runPasses_append split: sum.splits)
  from runPasses_appends[OF quietPasses_appends 1] obtain quiet where
    q: "snd st1 = quiet" "list_all (issueOf config quietIds) quiet" by auto
  from 2 q fakeLoop_spec[of 0 "[]" "fst st1" "snd st1"] show ?thesis
    by (cases st1) (auto simp: fakeButtonPass_def tagsFound_def split: if_splits)
qed

section \<open>Locations\<close>

lemma splitOn_nonempty: "splitOn c s \<noteq> []"
  by (induction s) (auto split: list.splits)

lemma splitOn_length: "length (splitOn c s) = 1 + count_list s c"
  by (induction s) (auto split: list.splits simp: splitOn_nonempty)

lemma splitOn_last: "last (splitOn c s) = rev (takeWhile (\<lambda>x. x \<noteq> c) (rev s))"
proof (induction s)
  case Nil
  then show ?case by simp
next
  case (Cons x xs)
  obtain y ys where s: "splitOn c xs = y # ys"
    using splitOn_nonempty[of c xs] by (cases "splitOn c xs") auto
  show ?case
  proof (cases "x = c")
    case True
    have "takeWhile (\<lambda>x. x \<noteq> c) (rev xs @ [c]) = takeWhile (\<lambda>x. x \<noteq> c) (rev xs)"
      by (rule takeWhile_tail) simp
    with True Cons s show ?thesis by simp
  next
    case False
    show ?thesis
    proof (cases "c \<in> set xs")
      case True
      then have tw: "takeWhile (\<lambda>x. x \<noteq> c) (rev xs @ [x]) = takeWhile (\<lambda>x. x \<noteq> c) (rev xs)"
        by (auto simp: takeWhile_append)
      have "ys \<noteq> []"
      proof
        assume "ys = []"
        with s have "length (splitOn c xs) = 1" by simp
        with splitOn_length[of c xs] have "count_list xs c = 0" by simp
        with True show False by (simp add: count_list_0_iff)
      qed
      then have "last (splitOn c (x # xs)) = last (splitOn c xs)" using s False by simp
      with Cons tw show ?thesis by simp
    next
      case nin: False
      then have "count_list xs c = 0" by (simp add: count_list_0_iff)
      with splitOn_length[of c xs] s have ys: "ys = []" by simp
      from nin have all: "\<forall>z\<in>set (rev xs). z \<noteq> c" by auto
      then have 1: "takeWhile (\<lambda>x. x \<noteq> c) (rev xs @ [x]) = rev xs @ [x]"
        using False by (simp add: takeWhile_append)
      from all have 2: "takeWhile (\<lambda>x. x \<noteq> c) (rev xs) = rev xs" by simp
      from Cons s ys 2 have y: "y = xs" by simp
      have lhs: "last (splitOn c (x # xs)) = x # xs" using s ys y False by simp
      have "rev (takeWhile (\<lambda>x. x \<noteq> c) (rev (x # xs))) = rev (rev xs @ [x])"
        by (simp only: rev.simps 1)
      also have "\<dots> = x # xs" by simp
      finally show ?thesis using lhs by (simp only:)
    qed
  qed
qed

lemma computeLineCol_spec:
  "computeLineCol s idx
     = Inr (1 + count_list (take idx s) 10,
            1 + length (takeWhile (\<lambda>x. x \<noteq> 10) (rev (take idx s))))"
proof (cases "idx = 0")
  case True
  then show ?thesis by (simp add: computeLineCol_def)
next
  case False
  define lines where "lines = splitOn 10 (take idx s)"
  have ne: "lines \<noteq> []" by (simp add: lines_def splitOn_nonempty)
  then obtain l ls where r: "rev lines = l # ls" by (cases "rev lines") auto
  then have l: "l = last lines" using ne by (metis list.sel(1) hd_rev)
  have len: "length lines = 1 + count_list (take idx s) 10" by (simp add: lines_def splitOn_length)
  have ll: "length l = length (takeWhile (\<lambda>x. x \<noteq> 10) (rev (take idx s)))"
    by (simp add: l lines_def splitOn_last)
  have "computeLineCol s idx = Inr (length lines, length l + 1)"
    using False r by (simp add: computeLineCol_def Let_def lines_def)
  with len ll show ?thesis by simp
qed

text \<open>The first occurrence of a snippet, said without the search.\<close>

definition occursAt :: "jstring \<Rightarrow> jstring \<Rightarrow> nat \<Rightarrow> bool" where
  "occursAt s t j \<longleftrightarrow> prefix t (drop j s)"

definition firstOccurrence :: "jstring \<Rightarrow> jstring \<Rightarrow> nat \<Rightarrow> bool" where
  "firstOccurrence s t idx \<longleftrightarrow> occursAt s t idx \<and> (\<forall>j<idx. \<not> occursAt s t j)"

lemma indexOf_Some: "indexOf s t = Some i \<Longrightarrow> firstOccurrence s t i"
proof (induction s arbitrary: i)
  case Nil
  then show ?case by (auto simp: firstOccurrence_def occursAt_def split: if_splits)
next
  case (Cons x xs)
  show ?case
  proof (cases "prefix t (x # xs)")
    case True
    with Cons.prems show ?thesis by (auto simp: firstOccurrence_def occursAt_def)
  next
    case False
    with Cons.prems obtain k where k: "indexOf xs t = Some k" "i = Suc k"
      by (auto split: option.splits)
    from Cons.IH[OF k(1)] have "occursAt xs t k" "\<forall>j<k. \<not> occursAt xs t j"
      by (auto simp: firstOccurrence_def)
    with False k(2) show ?thesis
      by (auto simp: firstOccurrence_def occursAt_def less_Suc_eq_0_disj)
  qed
qed

lemma indexOf_None: "indexOf s t = None \<Longrightarrow> \<not> occursAt s t j"
proof (induction s arbitrary: j)
  case Nil
  then show ?case by (auto simp: occursAt_def split: if_splits)
next
  case (Cons x xs)
  then have np: "\<not> prefix t (x # xs)" and n: "indexOf xs t = None"
    by (auto split: if_splits option.splits)
  show ?case
  proof (cases j)
    case 0
    with np show ?thesis by (simp add: occursAt_def)
  next
    case (Suc k)
    with Cons.IH[OF n, of k] show ?thesis by (simp add: occursAt_def)
  qed
qed

lemma firstOccurrence_unique:
  "firstOccurrence s t i \<Longrightarrow> firstOccurrence s t j \<Longrightarrow> i = j"
  unfolding firstOccurrence_def by (meson nat_neq_iff)

text \<open>What \<open>locate\<close> keeps and what it sets.\<close>

lemma locate_keeps:
  "locate html i = Inr j \<Longrightarrow>
     ruleId j = ruleId i \<and> originalSnippet j = originalSnippet i \<and> fixedSnippet j = fixedSnippet i
     \<and> issue.autoFixed j = issue.autoFixed i \<and> issue.needsManualReview j = issue.needsManualReview i"
  by (auto simp: locate_def Let_def split: if_splits option.splits sum.splits prod.splits)

lemma locate_fresh:
  assumes "fresh i" "locate html i = Inr j"
  shows "(originalSnippet i \<noteq> [] \<and> originalSnippet i \<noteq> asc ''(document)''
            \<and> firstOccurrence html (originalSnippet i) idx \<longrightarrow>
          startOffset j = idx \<and> endOffset j = idx + length (originalSnippet i)
            \<and> line j = 1 + count_list (take idx html) 10
            \<and> column j = 1 + length (takeWhile (\<lambda>x. x \<noteq> 10) (rev (take idx html))))
       \<and> (originalSnippet i = [] \<or> originalSnippet i = asc ''(document)''
            \<or> (\<forall>k. \<not> occursAt html (originalSnippet i) k) \<longrightarrow>
          startOffset j = 0 \<and> endOffset j = 0 \<and> line j = 0 \<and> column j = 0)"
proof (cases "originalSnippet i = [] \<or> originalSnippet i = asc ''(document)''")
  case True
  with assms show ?thesis by (auto simp: locate_def fresh_def Let_def)
next
  case False
  show ?thesis
  proof (cases "indexOf html (originalSnippet i)")
    case None
    from indexOf_None[OF None] have "\<And>k. \<not> firstOccurrence html (originalSnippet i) k"
      by (simp add: firstOccurrence_def)
    with assms None False show ?thesis by (auto simp: locate_def fresh_def Let_def)
  next
    case (Some k)
    from indexOf_Some[OF Some] have fo: "firstOccurrence html (originalSnippet i) k" .
    then have "\<not> (\<forall>k. \<not> occursAt html (originalSnippet i) k)" by (auto simp: firstOccurrence_def)
    moreover have "idx = k" if "firstOccurrence html (originalSnippet i) idx"
      using firstOccurrence_unique[OF that fo] .
    ultimately show ?thesis
      using assms Some False by (auto simp: locate_def fresh_def Let_def computeLineCol_spec)
  qed
qed

lemma locateAll_rel:
  "locateAll html iss = Inr out \<Longrightarrow> list_all2 (\<lambda>i j. locate html i = Inr j) iss out"
  by (induction iss arbitrary: out) (auto split: sum.splits)

lemma locate_total: "\<exists>j. locate html i = Inr j"
  by (auto simp: locate_def Let_def computeLineCol_spec split: option.splits)

lemma locateAll_total: "\<exists>out. locateAll html iss = Inr out"
proof (induction iss)
  case Nil
  then show ?case by simp
next
  case (Cons i iss)
  from locate_total[of html i] obtain j where "locate html i = Inr j" by blast
  with Cons show ?case by auto
qed

text \<open>Every issue of a result comes from an issue found by the passes.\<close>

lemma result_issue_origin:
  assumes "repairHtml h html config = Inr r" "j \<in> set (issues r)"
  shows "\<exists>repaired found i. runPasses (passes h config) (html, []) = Inr (repaired, found)
           \<and> i \<in> set found \<and> locate html i = Inr j"
proof -
  from assms(1) obtain repaired found where
    run: "runPasses (passes h config) (html, []) = Inr (repaired, found)"
    and loc: "locateAll html found = Inr (issues r)"
    by (auto simp: repairHtml_def split: sum.splits prod.splits)
  have "\<exists>i\<in>set xs. locate html i = Inr j"
    if "list_all2 (\<lambda>i j. locate html i = Inr j) xs ys" "j \<in> set ys" for xs ys
    using that by (induction rule: list_all2_induct) auto
  from this[OF locateAll_rel[OF loc] assms(2)]
  obtain i where "i \<in> set found" "locate html i = Inr j" by blast
  with run show ?thesis by blast
qed

lemma found_issueOf:
  assumes "runPasses (passes h config) (html, []) = Inr (repaired, found)" "i \<in> set found"
  shows "fresh i \<and> (issue.autoFixed i \<longrightarrow> fixedSnippet i \<noteq> None) \<and> ruleEnabled config (ruleId i)"
proof -
  from run_found[OF assms(1)] obtain quiet where
    q: "list_all (issueOf config quietIds) quiet"
    and f: "found = quiet @ (if ruleEnabled config (asc ''fake-button'')
                            then map fakeIssue (take 10 (filter (\<lambda>t. \<not> keyboardReady t) (tagsFound repaired)))
                            else [])" by blast
  show ?thesis
  proof (cases "i \<in> set quiet")
    case True
    with q show ?thesis by (auto simp: list_all_iff issueOf_def)
  next
    case False
    with f assms(2) obtain t where "ruleEnabled config (asc ''fake-button'')" "i = fakeIssue t"
      by (auto split: if_splits)
    then show ?thesis by (simp add: fakeIssue_def createIssue_def fresh_def)
  qed
qed

text \<open>
  C8. Every issue of a result that is marked \<^verbatim>\<open>autoFixed\<close> has a \<^verbatim>\<open>fixedSnippet\<close>, for
  every input, configuration and rule.
\<close>

theorem C8_autoFixed_has_fixedSnippet:
  assumes "repairHtml h html config = Inr r" "i \<in> set (issues r)" "issue.autoFixed i"
  shows "fixedSnippet i \<noteq> None"
proof -
  from result_issue_origin[OF assms(1,2)] obtain repaired found i0 where
    "runPasses (passes h config) (html, []) = Inr (repaired, found)" "i0 \<in> set found"
    "locate html i0 = Inr i" by blast
  with found_issueOf[OF this(1,2)] locate_keeps[OF this(3)] assms(3) show ?thesis by simp
qed

text \<open>
  C9. After all passes, an issue whose original snippet is not empty, is not the sentinel
  \<^verbatim>\<open>(document)\<close> and occurs in the original input has \<^verbatim>\<open>startOffset\<close> at the first
  occurrence of the snippet there, \<^verbatim>\<open>endOffset\<close> at that offset plus the length of the
  snippet, \<^verbatim>\<open>line\<close> one more than the number of newlines before the offset and \<^verbatim>\<open>column\<close>
  one more than the number of code units between the last of these newlines and the
  offset. An issue whose snippet is empty, is the sentinel or does not occur in the input
  keeps 0 in the four fields, and filling in the locations never fails.
\<close>

theorem C9_locations:
  assumes "repairHtml h html config = Inr r" "i \<in> set (issues r)"
  shows "(originalSnippet i \<noteq> [] \<and> originalSnippet i \<noteq> asc ''(document)''
            \<and> firstOccurrence html (originalSnippet i) idx \<longrightarrow>
          startOffset i = idx \<and> endOffset i = idx + length (originalSnippet i)
            \<and> line i = 1 + count_list (take idx html) 10
            \<and> column i = 1 + length (takeWhile (\<lambda>x. x \<noteq> 10) (rev (take idx html))))
       \<and> (originalSnippet i = [] \<or> originalSnippet i = asc ''(document)''
            \<or> (\<forall>k. \<not> occursAt html (originalSnippet i) k) \<longrightarrow>
          startOffset i = 0 \<and> endOffset i = 0 \<and> line i = 0 \<and> column i = 0)
       \<and> (\<exists>located. locateAll html anyIssues = Inr located)"
proof -
  from result_issue_origin[OF assms] obtain repaired found i0 where
    *: "runPasses (passes h config) (html, []) = Inr (repaired, found)" "i0 \<in> set found"
    "locate html i0 = Inr i" by blast
  from found_issueOf[OF *(1,2)] have "fresh i0" by simp
  from locate_fresh[OF this *(3), of idx] locate_keeps[OF *(3)] locateAll_total[of html anyIssues]
  show ?thesis by simp
qed

section \<open>Fake buttons and rule switches\<close>

lemma locate_keeps_filter:
  "list_all2 (\<lambda>i j. locate html i = Inr j) xs ys \<Longrightarrow>
   map originalSnippet (filter (\<lambda>i. ruleId i = x) ys) = map originalSnippet (filter (\<lambda>i. ruleId i = x) xs)"
  by (induction rule: list_all2_induct) (auto dest: locate_keeps)

lemma fake_not_quiet: "asc ''fake-button'' \<notin> set quietIds"
  by (simp add: quietIds_def asc_def)

lemma quiet_no_fake:
  "list_all (issueOf config quietIds) quiet \<Longrightarrow> filter (\<lambda>i. ruleId i = asc ''fake-button'') quiet = []"
  using fake_not_quiet by (auto simp: list_all_iff issueOf_def filter_empty_conv)

lemma fakeIssue_fields: "ruleId (fakeIssue t) = asc ''fake-button''" "originalSnippet (fakeIssue t) = t"
  by (simp_all add: fakeIssue_def createIssue_def)

text \<open>
  The \<^verbatim>\<open>fake-button\<close> issues of a result, by the test of the code: in order, the first ten
  tags found in the repaired text that do not pass \<open>keyboardReady\<close>.
\<close>

lemma fake_button_issues_found:
  assumes "repairHtml h html config = Inr r"
  shows "map originalSnippet (filter (\<lambda>i. ruleId i = asc ''fake-button'') (issues r))
           = (if ruleEnabled config (asc ''fake-button'')
              then take 10 (filter (\<lambda>t. \<not> keyboardReady t) (tagsFound (repairedHtml r)))
              else [])
         \<and> length (filter (\<lambda>i. ruleId i = asc ''fake-button'') (issues r)) \<le> 10"
proof -
  from assms obtain repaired found where
    run: "runPasses (passes h config) (html, []) = Inr (repaired, found)"
    and loc: "locateAll html found = Inr (issues r)" and rep: "repairedHtml r = repaired"
    by (auto simp: repairHtml_def split: sum.splits prod.splits)
  from run_found[OF run] obtain quiet where
    q: "list_all (issueOf config quietIds) quiet"
    and f: "found = quiet @ (if ruleEnabled config (asc ''fake-button'')
                            then map fakeIssue (take 10 (filter (\<lambda>t. \<not> keyboardReady t) (tagsFound repaired)))
                            else [])" by blast
  have "map originalSnippet (filter (\<lambda>i. ruleId i = asc ''fake-button'') (issues r))
      = map originalSnippet (filter (\<lambda>i. ruleId i = asc ''fake-button'') found)"
    by (rule locate_keeps_filter[OF locateAll_rel[OF loc]])
  also have "\<dots> = (if ruleEnabled config (asc ''fake-button'')
              then take 10 (filter (\<lambda>t. \<not> keyboardReady t) (tagsFound repaired))
              else [])"
    unfolding f using quiet_no_fake[OF q]
    by (simp add: fakeIssue_fields filter_map comp_def)
  finally have 1: "map originalSnippet (filter (\<lambda>i. ruleId i = asc ''fake-button'') (issues r))
      = (if ruleEnabled config (asc ''fake-button'')
              then take 10 (filter (\<lambda>t. \<not> keyboardReady t) (tagsFound (repairedHtml r)))
              else [])" using rep by simp
  have "length (filter (\<lambda>i. ruleId i = asc ''fake-button'') (issues r))
      = length (map originalSnippet (filter (\<lambda>i. ruleId i = asc ''fake-button'') (issues r)))" by simp
  also have "\<dots> \<le> 10" unfolding 1 by simp
  finally show ?thesis using 1 by simp
qed

text \<open>
  The amended claim in its own words. A tag has the role when
  \<^verbatim>\<open>/\brole\s*=\s*("button"|'button')/i\<close> matches it, and the tab index when
  \<^verbatim>\<open>/\btabindex\s*=\s*("0"|'0'|0)/i\<close> matches it. The pattern of the code for the tab index
  has a \<^verbatim>\<open>\b\<close> at its end; the claim is made for the tags on which this boundary makes no
  difference (\<open>boundaryFree\<close>).
\<close>

definition tabindexZeroRe :: re where
  "tabindexZeroRe = seqs [WordB, lit (asc ''tabindex''), Star (Cls [CSpace]), At (Lit 61),
     Star (Cls [CSpace]), Grp 1 (alts [lit [34, 48, 34], lit [39, 48, 39], lit [48]])]"

definition hasRoleButton :: "jstring \<Rightarrow> bool" where
  "hasRoleButton tag \<longleftrightarrow> test roleRe True tag"

definition hasTabindexZero :: "jstring \<Rightarrow> bool" where
  "hasTabindexZero tag \<longleftrightarrow> test tabindexZeroRe True tag"

definition boundaryFree :: "jstring \<Rightarrow> bool" where
  "boundaryFree tag \<longleftrightarrow> test tabindexRe True tag = test tabindexZeroRe True tag"

text \<open>
  C5 (amended). When the boundary makes no difference on the tags found, the
  \<^verbatim>\<open>fake-button\<close> issues of a result are, in order, the first ten \<^verbatim>\<open>div\<close> or \<^verbatim>\<open>span\<close>
  start tags with an \<^verbatim>\<open>onclick\<close> found in the repaired text that do not have both the
  role \<^verbatim>\<open>button\<close> and the tab index \<^verbatim>\<open>0\<close> (a tag with only one of the two gets an issue),
  and none when the rule is off. In every case there are at most ten of them.
\<close>

theorem C5_fake_button_issues:
  assumes "repairHtml h html config = Inr r"
  shows "(list_all boundaryFree (tagsFound (repairedHtml r)) \<longrightarrow>
          map originalSnippet (filter (\<lambda>i. ruleId i = asc ''fake-button'') (issues r))
            = (if ruleEnabled config (asc ''fake-button'')
               then take 10 (filter (\<lambda>t. \<not> (hasRoleButton t \<and> hasTabindexZero t))
                               (tagsFound (repairedHtml r)))
               else []))
         \<and> length (filter (\<lambda>i. ruleId i = asc ''fake-button'') (issues r)) \<le> 10"
proof -
  have "filter (\<lambda>t. \<not> keyboardReady t) (tagsFound (repairedHtml r))
      = filter (\<lambda>t. \<not> (hasRoleButton t \<and> hasTabindexZero t)) (tagsFound (repairedHtml r))"
    if "list_all boundaryFree (tagsFound (repairedHtml r))"
    using that
    by (intro filter_cong)
       (auto simp: list_all_iff boundaryFree_def keyboardReady_def hasRoleButton_def
          hasTabindexZero_def)
  with fake_button_issues_found[OF assms] show ?thesis by simp
qed
































section \<open>Returning a result\<close>

text \<open>
  \<open>stringish v\<close>: the placeholder \<open>v\<close> is a string, or it is falsy and the default is
  taken. \<open>primitive v\<close>: \<open>v\<close> is neither an array nor an object. \<open>typedConfig\<close> asks the
  first of the six placeholders and the second of \<^verbatim>\<open>basePx\<close>, where it is given.
\<close>

fun stringish :: "jsval \<Rightarrow> bool" where
  "stringish (JStr s) = True"
| "stringish v = (\<not> truthy v)"

fun primitive :: "jsval \<Rightarrow> bool" where
  "primitive (JArr xs) = False"
| "primitive (JObj kvs) = False"
| "primitive v = True"

definition typedConfig :: "jsval \<Rightarrow> bool" where
  "typedConfig config \<longleftrightarrow>
     list_all (\<lambda>name. stringish (pref config name))
       [asc ''iframeTitle'', asc ''imgAlt'', asc ''linkText'', asc ''linkEmptyTitle'',
        asc ''linkTitle'', asc ''newWindowHint'']
     \<and> primitive (basePxOf config)"

definition totalR :: "replacer \<Rightarrow> bool" where
  "totalR f \<longleftrightarrow> (\<forall>m c iss. \<exists>out iss'. f m c iss = Inr (out, iss'))"

definition totalP :: "(pstate \<Rightarrow> error + pstate) \<Rightarrow> bool" where
  "totalP g \<longleftrightarrow> (\<forall>st. \<exists>st'. g st = Inr st')"

lemma orElse_str: "stringish v \<Longrightarrow> \<exists>s. orElse v (JStr d) = JStr s"
  by (cases v) (auto simp: orElse_def)

lemma addOrUpdateAttr_str: "\<exists>t. addOrUpdateAttr tag n (JStr s) = Inr t"
  by (auto simp: addOrUpdateAttr_def split: option.splits prod.splits)

lemma segsM_total:
  assumes "totalR f"
  shows "\<exists>out iss'. segsM f segs iss = Inr (out, iss')"
proof (induction segs arbitrary: iss)
  case Nil
  then show ?case by simp
next
  case (Cons sg segs)
  obtain gap m c b a where sg: "sg = (gap, m, c, b, a)" by (cases sg)
  from assms obtain o1 i1 where 1: "f m c iss = Inr (o1, i1)" unfolding totalR_def by blast
  from Cons[of i1] obtain o2 i2 where 2: "segsM f segs i1 = Inr (o2, i2)" by blast
  from 1 2 sg show ?case by simp
qed

lemma replaceAllM_total:
  assumes "totalR f"
  shows "\<exists>st'. replaceAllM r ic f s iss = Inr st'"
proof -
  obtain segs rest where sc: "scan r ic [] s = (segs, rest)" by (cases "scan r ic [] s")
  from segsM_total[OF assms, of segs iss] obtain out iss' where "segsM f segs iss = Inr (out, iss')" by blast
  with sc show ?thesis by (simp add: replaceAllM_def)
qed

lemma frameTitleFix_total: "typedConfig config \<Longrightarrow> totalR (frameTitleFix config)"
  unfolding totalR_def
proof (intro allI)
  fix m c iss
  assume "typedConfig config"
  then have "stringish (pref config (asc ''iframeTitle''))" by (simp add: typedConfig_def)
  from orElse_str[OF this] obtain s where s: "orElse (pref config (asc ''iframeTitle'')) (JStr ph_iframeTitle) = JStr s"
    by blast
  from addOrUpdateAttr_str obtain t where "addOrUpdateAttr m (asc ''title'') (JStr s) = Inr t" by blast
  with s show "\<exists>out iss'. frameTitleFix config m c iss = Inr (out, iss')"
    by (simp add: frameTitleFix_def Let_def)
qed

lemma imgAltFix_total: "typedConfig config \<Longrightarrow> totalR (imgAltFix config)"
  unfolding totalR_def
proof (intro allI)
  fix m c iss
  assume "typedConfig config"
  then have "stringish (pref config (asc ''imgAlt''))" by (simp add: typedConfig_def)
  from orElse_str[OF this] obtain s where s: "orElse (pref config (asc ''imgAlt'')) (JStr ph_imgAlt) = JStr s"
    by blast
  from addOrUpdateAttr_str obtain t where "addOrUpdateAttr m (asc ''alt'') (JStr s) = Inr t" by blast
  with s show "\<exists>out iss'. imgAltFix config m c iss = Inr (out, iss')"
    by (simp add: imgAltFix_def Let_def split: option.splits)
qed

lemma linkImgFix_total: "typedConfig config \<Longrightarrow> totalR (linkImgFix config)"
  unfolding totalR_def
proof (intro allI)
  fix m c iss
  assume "typedConfig config"
  then have "stringish (pref config (asc ''imgAlt''))" by (simp add: typedConfig_def)
  from orElse_str[OF this] obtain s where s: "orElse (pref config (asc ''imgAlt'')) (JStr ph_imgAlt) = JStr s"
    by blast
  from addOrUpdateAttr_str obtain t where "addOrUpdateAttr m (asc ''alt'') (JStr s) = Inr t" by blast
  with s show "\<exists>out iss'. linkImgFix config m c iss = Inr (out, iss')"
    by (simp add: linkImgFix_def Let_def)
qed

lemma emptyLink_total:
  assumes "typedConfig config"
  shows "\<exists>p. emptyLink config openTag full iss = Inr p"
proof -
  from assms have "stringish (pref config (asc ''linkText''))" "stringish (pref config (asc ''linkEmptyTitle''))"
    by (simp_all add: typedConfig_def)
  from orElse_str[OF this(1)] orElse_str[OF this(2)] obtain s1 s2 where
    s: "orElse (pref config (asc ''linkText'')) (JStr ph_linkText) = JStr s1"
       "orElse (pref config (asc ''linkEmptyTitle'')) (JStr ph_linkEmptyTitle) = JStr s2" by blast
  from addOrUpdateAttr_str obtain t where "addOrUpdateAttr openTag (asc ''title'') (JStr s2) = Inr t" by blast
  with s show ?thesis by (simp add: emptyLink_def Let_def)
qed

lemma mergedTitle_total:
  assumes "typedConfig config"
  shows "\<exists>t. mergedTitle (newWindowHint config) x = Inr t"
proof -
  from assms have "stringish (pref config (asc ''newWindowHint''))" by (simp add: typedConfig_def)
  from orElse_str[OF this] obtain s where "newWindowHint config = JStr s"
    unfolding newWindowHint_def by blast
  then show ?thesis by (simp add: mergedTitle_def)
qed

lemma titleTextOf_total:
  assumes "typedConfig config"
  shows "\<exists>t. titleTextOf config x = Inr t"
proof -
  from assms have "stringish (pref config (asc ''linkTitle''))" by (simp add: typedConfig_def)
  then show ?thesis by (cases "pref config (asc ''linkTitle'')") (auto simp: titleTextOf_def Let_def)
qed

lemma namedLink_total:
  assumes "typedConfig config"
  shows "\<exists>p. namedLink h config openTag inner full linkName iss = Inr p"
proof -
  have add: "\<exists>t. addOrUpdateAttr openTag (asc ''title'') (JStr s) = Inr t" for s
    by (rule addOrUpdateAttr_str)
  from mergedTitle_total[OF assms] have mt: "\<exists>t. mergedTitle (newWindowHint config) x = Inr t" for x .
  from titleTextOf_total[OF assms] obtain tt where tt: "titleTextOf config linkName = Inr tt" by blast
  from mt[of linkName] obtain m1 where m1: "mergedTitle (newWindowHint config) linkName = Inr m1" by blast
  from mt[of tt] obtain m2 where m2: "mergedTitle (newWindowHint config) tt = Inr m2" by blast
  define ct where "ct = (case getAttr openTag (asc ''title'') of None \<Rightarrow> [] | Some t \<Rightarrow> js_trim t)"
  from mt[of ct] obtain m3 where m3: "mergedTitle (newWindowHint config) ct = Inr m3" by blast
  from add[of m1] obtain a1 where a1: "addOrUpdateAttr openTag (asc ''title'') (JStr m1) = Inr a1" by blast
  from add[of m2] obtain a2 where a2: "addOrUpdateAttr openTag (asc ''title'') (JStr m2) = Inr a2" by blast
  from add[of m3] obtain a3 where a3: "addOrUpdateAttr openTag (asc ''title'') (JStr m3) = Inr a3" by blast
  from add[of tt] obtain a4 where a4: "addOrUpdateAttr openTag (asc ''title'') (JStr tt) = Inr a4" by blast
  show ?thesis
    unfolding namedLink_def Let_def
    using tt m1 m2 m3[unfolded ct_def] a1 a2 a3 a4 by simp
qed

lemma linkFix_total: "typedConfig config \<Longrightarrow> totalR (linkFix h config)"
  unfolding totalR_def
proof (intro allI)
  fix m c iss
  assume tc: "typedConfig config"
  define inner0 where "inner0 = replaceFirst aCloseRe True (byString []) (replaceFirst aOpenRe True (byString []) m)"
  obtain inner i1 where img: "(if ruleEnabled config (asc ''img-alt'')
         then replaceAllM imgRe True (linkImgFix config) inner0 iss
         else Inr (inner0, iss)) = Inr (inner, i1)"
    using replaceAllM_total[OF linkImgFix_total[OF tc], of imgRe True inner0 iss]
    by (cases "ruleEnabled config (asc ''img-alt'')") auto
  from emptyLink_total[OF tc] namedLink_total[OF tc] img
  show "\<exists>out iss'. linkFix h config m c iss = Inr (out, iss')"
    unfolding linkFix_def Let_def inner0_def[symmetric]
    by (auto split: if_splits)
qed

lemma primitive_defaulted: "primitive b \<Longrightarrow> primitive (defaulted b (JNum d))"
  by (simp add: defaulted_def)

lemma emFromPxJS_total: "primitive b \<Longrightarrow> \<exists>t. emFromPxJS h b n = Inr t"
  by (cases b) (simp_all add: emFromPxJS_def defaulted_def)

lemma fillSegsE_total:
  assumes "\<forall>n. \<exists>t. f n = Inr t"
  shows "\<exists>out. fillSegsE f segs = Inr out"
proof (induction segs)
  case Nil
  then show ?case by simp
next
  case (Cons sg segs)
  obtain gap m c b a where sg: "sg = (gap, m, c, b, a)" by (cases sg)
  from assms obtain t where "f (cap c 1) = Inr t" by blast
  with Cons sg show ?case by auto
qed

lemma replaceAllE_total:
  assumes "\<forall>n. \<exists>t. f n = Inr t"
  shows "\<exists>out ch. replaceAllE r ic f s = Inr (out, ch)"
proof -
  obtain segs rest where sc: "scan r ic [] s = (segs, rest)" by (cases "scan r ic [] s")
  from fillSegsE_total[OF assms] obtain out where "fillSegsE f segs = Inr out" by blast
  with sc show ?thesis by (simp add: replaceAllE_def)
qed

lemma convertDecl_total:
  assumes "primitive b"
  shows "\<exists>r. convertDecl h b rw d = Inr r"
proof -
  have px: "\<exists>out ch. replaceAllE (unitRe (asc ''px'')) True (emFromPxJS h b) s = Inr (out, ch)" for s
    using replaceAllE_total[of "emFromPxJS h b"] emFromPxJS_total[OF assms, of h] by blast
  obtain pr v0 where d: "d = (pr, v0)" by (cases d)
  from px[of v0] obtain v1 c1 where 1: "replaceAllE (unitRe (asc ''px'')) True (emFromPxJS h b) v0 = Inr (v1, c1)"
    by blast
  define fz where "fz = (if pr = asc ''font-size'' then
                   (case replaceAllE (unitRe (asc ''px'')) True (emFromPxJS h b) v0 of
                      Inl e \<Rightarrow> Inl e
                    | Inr (v1, c1) \<Rightarrow>
                        (case replaceAllC (unitRe (asc ''pt'')) True (emFromPt h) v1 of
                           (v2, c2) \<Rightarrow>
                             (case replaceAllC (unitRe (asc ''rem'')) True (emFromRem h) v2 of
                                (v3, c3) \<Rightarrow> Inr (v3, c1 \<or> c2 \<or> c3))))
                 else Inr (v0, False))"
  from 1 have "\<exists>v3 c3. fz = Inr (v3, c3)"
    by (auto simp: fz_def split: prod.splits)
  then obtain v3 c3 where f: "fz = Inr (v3, c3)" by blast
  from px[of v3] obtain v4 c4 where 4: "replaceAllE (unitRe (asc ''px'')) True (emFromPxJS h b) v3 = Inr (v4, c4)"
    by blast
  show ?thesis
    unfolding convertDecl_def d prod.case fz_def[symmetric] f
    using 4 by (auto split: prod.splits)
qed

lemma convertAll_total:
  assumes "primitive b"
  shows "\<exists>rs. convertAll h b rw ds = Inr rs"
proof (induction ds)
  case Nil
  then show ?case by simp
next
  case (Cons d ds)
  from convertDecl_total[OF assms, of h rw d] obtain r where "convertDecl h b rw d = Inr r" by blast
  with Cons show ?case by auto
qed

lemma normalizeInlineStyle_total:
  assumes "primitive b"
  shows "\<exists>out ch. normalizeInlineStyle h s b rw = Inr (out, ch)"
proof -
  from convertAll_total[OF primitive_defaulted[OF assms]] obtain rs where
    rs: "convertAll h (defaulted b (JNum (asc ''16''))) (defaulted rw (JBool True))
           (List.map_filter (parseDecl h) (splitOn 59 s)) = Inr rs" by blast
  show ?thesis
  proof (cases "s = []")
    case True
    then show ?thesis by (auto simp: normalizeInlineStyle_def)
  next
    case False
    with rs show ?thesis by (simp add: normalizeInlineStyle_def Let_def split: list.splits)
  qed
qed

lemma restyle_total:
  assumes "typedConfig config"
  shows "\<exists>t. restyle h config thOpen = Inr t"
proof (cases "getAttr thOpen (asc ''style'')")
  case None
  then show ?thesis by (simp add: restyle_def)
next
  case (Some style)
  from assms have "primitive (basePxOf config)" by (simp add: typedConfig_def)
  from normalizeInlineStyle_total[OF this] obtain out ch where
    "normalizeInlineStyle h style (basePxOf config) (removeWidthOf config) = Inr (out, ch)" by blast
  with Some addOrUpdateAttr_str[of thOpen "asc ''style''" out] show ?thesis
    by (auto simp: restyle_def)
qed

lemma rowHeaderFix_total: "typedConfig config \<Longrightarrow> totalR (rowHeaderFix h config)"
  unfolding totalR_def
proof (intro allI)
  fix m c iss
  assume tc: "typedConfig config"
  show "\<exists>out iss'. rowHeaderFix h config m c iss = Inr (out, iss')"
  proof (cases "firstMatch tdRe True m")
    case None
    then show ?thesis by (simp add: rowHeaderFix_def)
  next
    case (Some firstTd)
    define thOpen0 where "thOpen0 = replaceFirst tdStartRe True (byString (asc ''<th''))
        (orStr (firstMatch tdOpenRe True firstTd) (asc ''<td>''))"
    from addOrUpdateAttr_str obtain t1 where t1: "addOrUpdateAttr thOpen0 (asc ''scope'') (JStr (asc ''row'')) = Inr t1"
      by blast
    from restyle_total[OF tc] obtain t2 where t2: "restyle h config t1 = Inr t2" by blast
    from Some t1 t2 show ?thesis
      by (simp add: rowHeaderFix_def Let_def thOpen0_def[symmetric])
  qed
qed

lemma styleAttrFix_total: "typedConfig config \<Longrightarrow> totalR (styleAttrFix h config)"
  unfolding totalR_def
proof (intro allI)
  fix m c iss
  assume "typedConfig config"
  then have "primitive (basePxOf config)" by (simp add: typedConfig_def)
  from normalizeInlineStyle_total[OF this] obtain out ch where
    "normalizeInlineStyle h (case c 2 of Some x \<Rightarrow> x | None \<Rightarrow> cap c 3) (basePxOf config)
       (removeWidthOf config) = Inr (out, ch)" by blast
  then show "\<exists>out iss'. styleAttrFix h config m c iss = Inr (out, iss')"
    by (simp add: styleAttrFix_def Let_def)
qed

lemma convertCss_total:
  assumes "typedConfig config"
  shows "\<exists>t. convertCss h config css = Inr t"
proof -
  from assms have p: "primitive (basePxOf config)" by (simp add: typedConfig_def)
  have "\<exists>t. (case emFromPxJS h (basePxOf config) n of Inl e \<Rightarrow> Inl e
               | Inr em \<Rightarrow> Inr (fontSizeText em)) = Inr t" for n
    using emFromPxJS_total[OF p, of h n] by auto
  then have "\<forall>n. \<exists>t. (case emFromPxJS h (basePxOf config) n of Inl e \<Rightarrow> Inl e
               | Inr em \<Rightarrow> Inr (fontSizeText em)) = Inr t" by blast
  from replaceAllE_total[OF this, of "fontSizeRe (asc ''px'')" True css]
  show ?thesis by (auto simp: convertCss_def)
qed

lemma styleTagFix_total: "typedConfig config \<Longrightarrow> totalR (styleTagFix h config)"
  unfolding totalR_def
proof (intro allI)
  fix m c iss
  assume "typedConfig config"
  from convertCss_total[OF this] obtain t where "convertCss h config (cap c 1) = Inr t" by blast
  then show "\<exists>out iss'. styleTagFix h config m c iss = Inr (out, iss')"
    by (simp add: styleTagFix_def Let_def)
qed

lemma thScopeFix_total: "totalR (thScopeFix config)"
  unfolding totalR_def thScopeFix_def
  using addOrUpdateAttr_str by (auto split: sum.splits) (metis sum.distinct(1))

lemma formLabelCheck_total: "totalR (formLabelCheck h labels)"
  unfolding totalR_def formLabelCheck_def Let_def
  by auto

lemma passes_total:
  assumes "typedConfig config"
  shows "list_all totalP (passes h config)"
  unfolding passes_def totalP_def framePass_def imgPass_def linkPass_def rowHeaderPass_def
    thScopePass_def inlineStylePass_def styleTagPass_def formLabelPass_def skipLinkPass_def
    colorContrastPass_def fakeButtonPass_def
  using replaceAllM_total[OF frameTitleFix_total[OF assms]] replaceAllM_total[OF imgAltFix_total[OF assms]]
    replaceAllM_total[OF linkFix_total[OF assms]] replaceAllM_total[OF rowHeaderFix_total[OF assms]]
    replaceAllM_total[OF thScopeFix_total] replaceAllM_total[OF styleAttrFix_total[OF assms]]
    replaceAllM_total[OF styleTagFix_total[OF assms]] replaceAllM_total[OF formLabelCheck_total]
  by simp

lemma runPasses_total:
  "list_all totalP fs \<Longrightarrow> \<exists>st'. runPasses fs st = Inr st'"
proof (induction fs arbitrary: st)
  case Nil
  then show ?case by simp
next
  case (Cons g gs)
  from Cons.prems have "totalP g" and gs: "list_all totalP gs" by simp_all
  then obtain s1 where "g st = Inr s1" unfolding totalP_def by blast
  moreover from Cons.IH[OF gs] obtain s2 where "runPasses gs s1 = Inr s2" by blast
  ultimately show ?case by simp
qed

text \<open>
  The patterns of the seven passes that rewrite the text. When a pattern has no match its
  pass returns the text as it is; the four remaining passes only read the text.
\<close>

definition rewritePatterns :: "re list" where
  "rewritePatterns = [frameRe, imgRe, linkRe, trRe, thRe, styleAttrRe, styleTagRe]"

lemma replaceAllM_nomatch:
  assumes "\<not> test r ic s"
  shows "replaceAllM r ic f s iss = Inr (s, iss)"
proof -
  from assms have "search r ic None s = None" by (cases "search r ic None s") (auto simp: test_def)
  then show ?thesis by (simp add: replaceAllM_def scan.simps[of r ic "[]" s] lastOpt_def)
qed

fun segText :: "seg \<Rightarrow> jstring" where
  "segText (gap, m, c, b, a) = gap @ m"

lemma consGap_text:
  "consGap x p = (segs, rest) \<Longrightarrow> concat (map segText segs) @ rest = x # concat (map segText (fst p)) @ snd p"
  by (cases "(x, p)" rule: consGap.cases) auto

lemma scan_text: "scan r ic bef s = (segs, rest) \<Longrightarrow> concat (map segText segs) @ rest = s"
proof (induction r ic bef s arbitrary: segs rest rule: scan.induct)
  case (1 r ic bef s)
  show ?case
  proof (cases "search r ic (lastOpt bef) s")
    case None
    with "1.prems" show ?thesis by (simp add: scan.simps[of r ic bef s])
  next
    case (Some z)
    obtain pre m post c where z: "z = (pre, m, post, c)" by (cases z)
    from search_sound[OF Some[unfolded z]] have s: "s = pre @ m @ post" .
    show ?thesis
    proof (cases "m = []")
      case True
      show ?thesis
      proof (cases post)
        case Nil
        with "1.prems" Some z True have "segs = [(pre, m, c, bef @ pre, post)]" "rest = []"
          by (simp_all add: scan.simps[of r ic bef s])
        with s True Nil show ?thesis by simp
      next
        case (Cons x xs)
        obtain segs1 rest1 where sc: "scan r ic (bef @ pre @ [x]) xs = (segs1, rest1)"
          by (cases "scan r ic (bef @ pre @ [x]) xs")
        obtain segs2 rest2 where cg: "consGap x (segs1, rest1) = (segs2, rest2)"
          by (cases "consGap x (segs1, rest1)")
        from "1.IH"(1)[OF Some[unfolded z] refl refl refl True Cons sc]
        have ih: "concat (map segText segs1) @ rest1 = xs" .
        from consGap_text[OF cg] ih have "concat (map segText segs2) @ rest2 = x # xs" by simp
        moreover from "1.prems" Some z True Cons sc cg
        have "segs = (pre, m, c, bef @ pre, post) # segs2" "rest = rest2"
          by (simp_all add: scan.simps[of r ic bef s])
        ultimately show ?thesis using s True Cons by simp
      qed
    next
      case False
      obtain segs1 rest1 where sc: "scan r ic (bef @ pre @ m) post = (segs1, rest1)"
        by (cases "scan r ic (bef @ pre @ m) post")
      from "1.IH"(2)[OF Some[unfolded z] refl refl refl False sc]
      have ih: "concat (map segText segs1) @ rest1 = post" .
      from "1.prems" Some z False sc
      have "segs = (pre, m, c, bef @ pre, post) # segs1" "rest = rest1"
        by (simp_all add: scan.simps[of r ic bef s])
      with ih s show ?thesis by simp
    qed
  qed
qed

lemma segsM_keeps:
  assumes "\<forall>m c iss. \<exists>iss'. f m c iss = Inr (m, iss')"
  shows "\<exists>iss'. segsM f segs iss = Inr (concat (map segText segs), iss')"
proof (induction segs arbitrary: iss)
  case Nil
  then show ?case by simp
next
  case (Cons sg segs)
  obtain gap m c b a where sg: "sg = (gap, m, c, b, a)" by (cases sg)
  from assms obtain i1 where 1: "f m c iss = Inr (m, i1)" by blast
  from Cons[of i1] obtain i2 where 2: "segsM f segs i1 = Inr (concat (map segText segs), i2)" by blast
  from 1 2 sg show ?case by simp
qed

lemma replaceAllM_keeps:
  assumes "\<forall>m c iss. \<exists>iss'. f m c iss = Inr (m, iss')"
  shows "\<exists>iss'. replaceAllM r ic f s iss = Inr (s, iss')"
proof -
  obtain segs rest where sc: "scan r ic [] s = (segs, rest)" by (cases "scan r ic [] s")
  from segsM_keeps[OF assms] obtain iss' where
    "segsM f segs iss = Inr (concat (map segText segs), iss')" by blast
  with sc scan_text[OF sc] show ?thesis by (simp add: replaceAllM_def)
qed

lemma formLabelPass_keeps: "\<exists>iss'. formLabelPass h config st = Inr (fst st, iss')"
proof (cases "ruleEnabled config (asc ''form-label'')")
  case True
  have "\<forall>m c iss. \<exists>iss'. formLabelCheck h labels m c iss = Inr (m, iss')" for labels
    by (simp add: formLabelCheck_def Let_def)
  from replaceAllM_keeps[OF this] True
  show ?thesis by (simp add: formLabelPass_def)
next
  case False
  then show ?thesis by (cases st) (simp add: formLabelPass_def)
qed

lemma run_unmatched:
  assumes "runPasses (passes h config) (html, []) = Inr (repaired, found)"
    and "list_all (\<lambda>p. \<not> test p True html) rewritePatterns"
  shows "repaired = html"
proof -
  from assms(2) have nm: "\<not> test frameRe True html" "\<not> test imgRe True html" "\<not> test linkRe True html"
    "\<not> test trRe True html" "\<not> test thRe True html" "\<not> test styleAttrRe True html"
    "\<not> test styleTagRe True html"
    by (simp_all add: rewritePatterns_def)
  have 1: "framePass config (html, iss) = Inr (html, iss)" for iss
    using nm by (simp add: framePass_def replaceAllM_nomatch)
  have 2: "imgPass config (html, iss) = Inr (html, iss)" for iss
    using nm by (simp add: imgPass_def replaceAllM_nomatch)
  have 3: "linkPass h config (html, iss) = Inr (html, iss)" for iss
    using nm by (simp add: linkPass_def replaceAllM_nomatch)
  have 4: "rowHeaderPass h config (html, iss) = Inr (html, iss)" for iss
    using nm by (simp add: rowHeaderPass_def replaceAllM_nomatch)
  have 5: "thScopePass config (html, iss) = Inr (html, iss)" for iss
    using nm by (simp add: thScopePass_def replaceAllM_nomatch)
  have 6: "inlineStylePass h config (html, iss) = Inr (html, iss)" for iss
    using nm by (simp add: inlineStylePass_def replaceAllM_nomatch)
  have 7: "styleTagPass h config (html, iss) = Inr (html, iss)" for iss
    using nm by (simp add: styleTagPass_def replaceAllM_nomatch)
  from formLabelPass_keeps[of h config "(html, [])"] obtain i8 where
    8: "formLabelPass h config (html, []) = Inr (html, i8)" by auto
  have 9: "\<exists>iss'. skipLinkPass config (html, iss) = Inr (html, iss')" for iss
    by (simp add: skipLinkPass_def)
  have 10: "\<exists>iss'. colorContrastPass config (html, iss) = Inr (html, iss')" for iss
    by (simp add: colorContrastPass_def)
  have 11: "\<exists>iss'. fakeButtonPass config (html, iss) = Inr (html, iss')" for iss
    by (simp add: fakeButtonPass_def)
  from 9[of i8] obtain i9 where i9: "skipLinkPass config (html, i8) = Inr (html, i9)" by blast
  from 10[of i9] obtain i10 where i10: "colorContrastPass config (html, i9) = Inr (html, i10)" by blast
  from 11[of i10] obtain i11 where i11: "fakeButtonPass config (html, i10) = Inr (html, i11)" by blast
  from assms(1) show ?thesis
    by (simp add: passes_def 1 2 3 4 5 6 7 8 i9 i10 i11)
qed

text \<open>A pass whose pattern has no match in the text returns the text and the issues as they are.\<close>

lemma pass_unmatched:
  "\<not> test frameRe True (fst st) \<Longrightarrow> framePass config st = Inr st"
  "\<not> test imgRe True (fst st) \<Longrightarrow> imgPass config st = Inr st"
  "\<not> test linkRe True (fst st) \<Longrightarrow> linkPass h config st = Inr st"
  "\<not> test trRe True (fst st) \<Longrightarrow> rowHeaderPass h config st = Inr st"
  "\<not> test thRe True (fst st) \<Longrightarrow> thScopePass config st = Inr st"
  "\<not> test styleAttrRe True (fst st) \<Longrightarrow> inlineStylePass h config st = Inr st"
  "\<not> test styleTagRe True (fst st) \<Longrightarrow> styleTagPass h config st = Inr st"
  "\<not> test inputRe True (fst st) \<Longrightarrow> formLabelPass h config st = Inr st"
  by (simp_all add: framePass_def imgPass_def linkPass_def rowHeaderPass_def thScopePass_def
      inlineStylePass_def styleTagPass_def formLabelPass_def replaceAllM_nomatch)

lemma loop_unmatched:
  "\<not> test navRe True (fst st) \<Longrightarrow> \<not> test mainRe True (fst st) \<Longrightarrow> skipLinkPass config st = Inr st"
  "\<not> test colorStyleRe True (fst st) \<Longrightarrow> colorContrastPass config st = Inr st"
  "\<not> test fakeBtnRe True (fst st) \<Longrightarrow> fakeButtonPass config st = Inr st"
proof -
  show "\<not> test navRe True (fst st) \<Longrightarrow> \<not> test mainRe True (fst st) \<Longrightarrow> skipLinkPass config st = Inr st"
    by (simp add: skipLinkPass_def skipLinkCheck_def)
  have none: "search r True None s = None" if "\<not> test r True s" for r s
    using that by (cases "search r True None s") (auto simp: test_def)
  show "\<not> test colorStyleRe True (fst st) \<Longrightarrow> colorContrastPass config st = Inr st"
    by (simp add: colorContrastPass_def colorLoop.simps[of "[]"] lastOpt_def none)
  show "\<not> test fakeBtnRe True (fst st) \<Longrightarrow> fakeButtonPass config st = Inr st"
    by (simp add: fakeButtonPass_def fakeLoop.simps[of "[]"] lastOpt_def none)
qed

text \<open>
  C7 (amended). For every input text and every configuration whose placeholders are
  strings where they are given, and whose \<^verbatim>\<open>basePx\<close> is neither an array nor an object,
  \<^verbatim>\<open>repairHtml\<close> returns a result: no pass throws, the \<^verbatim>\<open>exec\<close> loops end (their
  termination proofs are above) and the location pass does not fail. For every
  configuration, a pass whose pattern does not match the text it is given leaves the text
  and the issues unchanged (the skip-link pass when neither of its two landmark patterns
  matches); so when none of the rewriting patterns matches the input, the repaired text is
  the input.
\<close>

theorem C7_returns:
  "(typedConfig config \<longrightarrow>
      (\<exists>r. repairHtml h html config = Inr r
         \<and> (list_all (\<lambda>p. \<not> test p True html) rewritePatterns \<longrightarrow> repairedHtml r = html)))
   \<and> (\<not> test frameRe True (fst st) \<longrightarrow> framePass config st = Inr st)
   \<and> (\<not> test imgRe True (fst st) \<longrightarrow> imgPass config st = Inr st)
   \<and> (\<not> test linkRe True (fst st) \<longrightarrow> linkPass h config st = Inr st)
   \<and> (\<not> test trRe True (fst st) \<longrightarrow> rowHeaderPass h config st = Inr st)
   \<and> (\<not> test thRe True (fst st) \<longrightarrow> thScopePass config st = Inr st)
   \<and> (\<not> test styleAttrRe True (fst st) \<longrightarrow> inlineStylePass h config st = Inr st)
   \<and> (\<not> test styleTagRe True (fst st) \<longrightarrow> styleTagPass h config st = Inr st)
   \<and> (\<not> test inputRe True (fst st) \<longrightarrow> formLabelPass h config st = Inr st)
   \<and> (\<not> test navRe True (fst st) \<and> \<not> test mainRe True (fst st) \<longrightarrow> skipLinkPass config st = Inr st)
   \<and> (\<not> test colorStyleRe True (fst st) \<longrightarrow> colorContrastPass config st = Inr st)
   \<and> (\<not> test fakeBtnRe True (fst st) \<longrightarrow> fakeButtonPass config st = Inr st)"
proof -
  have "\<exists>r. repairHtml h html config = Inr r
         \<and> (list_all (\<lambda>p. \<not> test p True html) rewritePatterns \<longrightarrow> repairedHtml r = html)"
    if tc: "typedConfig config"
  proof -
    from runPasses_total[OF passes_total[OF tc]] obtain repaired found where
      run: "runPasses (passes h config) (html, []) = Inr (repaired, found)" by (metis surj_pair)
    from locateAll_total obtain located where loc: "locateAll html found = Inr located" by blast
    from run_unmatched[OF run]
    have "list_all (\<lambda>p. \<not> test p True html) rewritePatterns \<longrightarrow> repaired = html" by blast
    with run loc show ?thesis by (simp add: repairHtml_def)
  qed
  then show ?thesis
    by (simp add: pass_unmatched loop_unmatched)
qed

section \<open>Padding compaction\<close>

text \<open>The declarations after conversion, as \<^verbatim>\<open>normalizeInlineStyle\<close> computes them.\<close>

definition convertedDecls :: "host \<Rightarrow> jstring \<Rightarrow> jsval \<Rightarrow> jsval \<Rightarrow> error + decl list" where
  "convertedDecls h style basePx removeWidth =
     (case convertAll h (defaulted basePx (JNum (asc ''16''))) (defaulted removeWidth (JBool True))
             (List.map_filter (parseDecl h) (splitOn 59 style)) of
        Inl e \<Rightarrow> Inl e
      | Inr results \<Rightarrow> Inr (List.map_filter fst results))"

text \<open>
  The amended claim in its own words. A side declaration is a declaration of one of the
  four properties \<^verbatim>\<open>padding-top\<close>, \<^verbatim>\<open>padding-right\<close>, \<^verbatim>\<open>padding-bottom\<close>, \<^verbatim>\<open>padding-left\<close>.
  The value of a side is the value of its last declaration; a side is present when that
  value is not empty; the declarations can be compacted when at least three of the four
  sides are present with one and the same text; compaction keeps what stands before the
  first side declaration, puts the one \<^verbatim>\<open>padding\<close> declaration there and drops the side
  declarations. The claim is made for the styles in which no other property starts with
  \<^verbatim>\<open>padding-\<close> (\<open>onlySides\<close>).
\<close>

definition sideValue :: "decl list \<Rightarrow> jstring \<Rightarrow> jstring option" where
  "sideValue ds k = (case filter (\<lambda>d. fst d = k) ds of [] \<Rightarrow> None | x # xs \<Rightarrow> Some (snd (last (x # xs))))"

definition presentSides :: "decl list \<Rightarrow> jstring list" where
  "presentSides ds = filter (\<lambda>v. v \<noteq> []) (List.map_filter (sideValue ds) padKeys)"

definition compactable :: "decl list \<Rightarrow> bool" where
  "compactable ds \<longleftrightarrow> 3 \<le> length (presentSides ds) \<and> list_all (\<lambda>v. v = hd (presentSides ds)) (presentSides ds)"

definition isSide :: "decl \<Rightarrow> bool" where
  "isSide d \<longleftrightarrow> fst d \<in> set padKeys"

definition onlySides :: "decl list \<Rightarrow> bool" where
  "onlySides ds \<longleftrightarrow> list_all (\<lambda>d. isPadding d \<longrightarrow> isSide d) ds"

definition compacted :: "decl list \<Rightarrow> decl list" where
  "compacted ds =
     takeWhile (\<lambda>d. \<not> isSide d) ds @ (asc ''padding'', hd (presentSides ds))
       # filter (\<lambda>d. \<not> isSide d) (dropWhile (\<lambda>d. \<not> isSide d) ds)"

lemma sideValue_Cons:
  "sideValue (d # ds) k
     = (case sideValue ds k of Some v \<Rightarrow> Some v | None \<Rightarrow> if fst d = k then Some (snd d) else None)"
  by (auto simp: sideValue_def split: list.splits)

lemma padMap_sideValue:
  "prefix (asc ''padding-'') k \<Longrightarrow>
   padMap ds pad k = (case sideValue ds k of None \<Rightarrow> pad k | Some v \<Rightarrow> Some v)"
proof (induction ds arbitrary: pad)
  case Nil
  then show ?case by (simp add: sideValue_def)
next
  case (Cons d ds)
  define pad' where "pad' = (if isPadding d then pad(fst d \<mapsto> snd d) else pad)"
  have step: "padMap (d # ds) pad k = padMap ds pad' k" by (simp add: pad'_def)
  have ih: "padMap ds pad' k = (case sideValue ds k of None \<Rightarrow> pad' k | Some v \<Rightarrow> Some v)"
    by (rule Cons.IH[OF Cons.prems])
  have pk: "pad' k = (if fst d = k then Some (snd d) else pad k)"
    using Cons.prems by (auto simp: pad'_def isPadding_def)
  show ?case
    unfolding step ih sideValue_Cons pk by (simp split: option.splits)
qed

lemma presentVals_padMap: "presentVals (padMap ds Map.empty) = presentSides ds"
proof -
  have "padMap ds Map.empty k = sideValue ds k" if "k \<in> set padKeys" for k
  proof -
    from that have "prefix (asc ''padding-'') k" by (auto simp: padKeys_def asc_def)
    from padMap_sideValue[OF this, of ds Map.empty] show ?thesis by (simp split: option.splits)
  qed
  then have "List.map_filter (padMap ds Map.empty) padKeys = List.map_filter (sideValue ds) padKeys"
    by (simp add: List.map_filter_def cong: map_cong filter_cong)
  then show ?thesis by (simp add: presentVals_def presentSides_def)
qed

lemma compress_inserted: "compress v True ds = filter (\<lambda>d. \<not> isPadding d) ds"
  by (induction ds) auto

lemma compress_first:
  "list_ex isPadding ds \<Longrightarrow>
   compress v False ds = takeWhile (\<lambda>d. \<not> isPadding d) ds @ (asc ''padding'', v)
       # filter (\<lambda>d. \<not> isPadding d) (dropWhile (\<lambda>d. \<not> isPadding d) ds)"
  by (induction ds) (auto simp: compress_inserted)

lemma sideValue_Some_padding:
  "sideValue ds k = Some v \<Longrightarrow> prefix (asc ''padding-'') k \<Longrightarrow> list_ex isPadding ds"
proof -
  assume a: "sideValue ds k = Some v" and p: "prefix (asc ''padding-'') k"
  then have "filter (\<lambda>d. fst d = k) ds \<noteq> []" by (auto simp: sideValue_def)
  then obtain d where "d \<in> set ds" "fst d = k" by (meson filter_False)
  with p show ?thesis by (auto simp: list_ex_iff isPadding_def)
qed

lemma compactable_has_padding:
  assumes "presentSides ds \<noteq> []"
  shows "list_ex isPadding ds"
proof -
  from assms obtain v where "v \<in> set (presentSides ds)" by (cases "presentSides ds") auto
  then obtain k where "k \<in> set padKeys" "sideValue ds k = Some v"
    by (auto simp: presentSides_def List.map_filter_def)
  moreover from this(1) have "prefix (asc ''padding-'') k" by (auto simp: padKeys_def asc_def)
  ultimately show ?thesis using sideValue_Some_padding by blast
qed

lemma isSide_isPadding: "isSide d \<Longrightarrow> isPadding d"
  by (auto simp: isSide_def isPadding_def padKeys_def asc_def)

lemma onlySides_eq: "onlySides ds \<Longrightarrow> d \<in> set ds \<Longrightarrow> isPadding d = isSide d"
  using isSide_isPadding[of d] by (auto simp: onlySides_def list_all_iff)

lemma compacted_onlySides:
  assumes "onlySides ds"
  shows "compacted ds
     = takeWhile (\<lambda>d. \<not> isPadding d) ds @ (asc ''padding'', hd (presentSides ds))
         # filter (\<lambda>d. \<not> isPadding d) (dropWhile (\<lambda>d. \<not> isPadding d) ds)"
proof -
  have 1: "takeWhile (\<lambda>d. \<not> isSide d) ds = takeWhile (\<lambda>d. \<not> isPadding d) ds"
    by (rule takeWhile_cong) (simp_all add: onlySides_eq[OF assms])
  have 2: "dropWhile (\<lambda>d. \<not> isSide d) ds = dropWhile (\<lambda>d. \<not> isPadding d) ds"
    by (rule dropWhile_cong) (simp_all add: onlySides_eq[OF assms])
  have 3: "filter (\<lambda>d. \<not> isSide d) xs = filter (\<lambda>d. \<not> isPadding d) xs" if "set xs \<subseteq> set ds" for xs
    using that by (intro filter_cong) (auto simp: onlySides_eq[OF assms])
  have "set (dropWhile (\<lambda>d. \<not> isPadding d) ds) \<subseteq> set ds"
    by (auto dest: set_dropWhileD)
  from 3[OF this] show ?thesis unfolding compacted_def 1 2 by simp
qed

text \<open>
  C3 (amended). Where the conversion of the declarations does not throw and no property
  other than the four sides starts with \<^verbatim>\<open>padding-\<close>, \<^verbatim>\<open>normalizeInlineStyle\<close> collapses the
  side declarations into one \<^verbatim>\<open>padding\<close> declaration, standing where the first side
  declaration stood, if and only if at least three of the four sides \<^verbatim>\<open>padding-top\<close>,
  \<^verbatim>\<open>padding-right\<close>, \<^verbatim>\<open>padding-bottom\<close>, \<^verbatim>\<open>padding-left\<close> have a non-empty value after
  conversion (the last declaration of a side counts) and these values are the same text.
  Otherwise the converted declarations are rendered as they are, in their order.
\<close>

theorem C3_padding_compaction:
  assumes "convertedDecls h style basePx removeWidth = Inr ds" "onlySides ds"
  shows "\<exists>changed. normalizeInlineStyle h style basePx removeWidth
           = Inr (renderDecls (if compactable ds then compacted ds else ds), changed)"
proof -
  from assms(1) obtain results where
    rs: "convertAll h (defaulted basePx (JNum (asc ''16''))) (defaulted removeWidth (JBool True))
           (List.map_filter (parseDecl h) (splitOn 59 style)) = Inr results"
    and ds: "ds = List.map_filter fst results"
    by (auto simp: convertedDecls_def split: sum.splits)
  show ?thesis
  proof (cases "style = []")
    case True
    with rs have "results = []"
      by (simp add: parseDecl_def js_trim_def List.map_filter_def)
    with ds have "ds = []" by (simp add: List.map_filter_def)
    moreover have "\<not> compactable []"
      by (simp add: compactable_def presentSides_def sideValue_def List.map_filter_def)
    ultimately show ?thesis using True
      by (auto simp: normalizeInlineStyle_def renderDecls_def)
  next
    case False
    show ?thesis
    proof (cases "presentSides ds")
      case Nil
      then have "\<not> compactable ds" by (simp add: compactable_def)
      with Nil False rs show ?thesis
        by (simp add: normalizeInlineStyle_def Let_def ds[symmetric] presentVals_padMap)
    next
      case (Cons v vs)
      then have hp: "list_ex isPadding ds" using compactable_has_padding[of ds] by simp
      from Cons have c: "compactable ds \<longleftrightarrow> 3 \<le> length (v # vs) \<and> list_all (\<lambda>w. w = v) (v # vs)"
        by (simp add: compactable_def)
      from Cons have cd: "compacted ds = compress v False ds"
        by (simp add: compacted_onlySides[OF assms(2)] compress_first[OF hp])
      from Cons False c cd rs show ?thesis
        by (simp add: normalizeInlineStyle_def Let_def ds[symmetric] presentVals_padMap)
    qed
  qed
qed

section \<open>Evaluating the engine\<close>

subsection \<open>Scenario E of the specification\<close>

text \<open>
  \<^verbatim>\<open><a href="/x" target="_blank" title="T">L</a>\<close> with a two-character Chinese title \<open>T\<close>
  (code units 35498, 26126) and a two-character Chinese link text \<open>L\<close> (36899, 32080), and
  no configuration.
\<close>

definition scenarioE :: jstring where
  "scenarioE = asc ''<a href='' @ [34] @ asc ''/x'' @ [34] @ asc '' target='' @ [34] @ asc ''_blank''
     @ [34] @ asc '' title='' @ [34, 35498, 26126, 34, 62, 36899, 32080] @ asc ''</a>''"

definition resultE :: repairResult where
  "resultE =
     \<lparr> originalHtml = scenarioE, repairedHtml = scenarioE,
       issues = [(newWindowIssue msg_new_window_added scenarioE scenarioE)
                   \<lparr> startOffset := 0, endOffset := 46, line := 1, column := 1 \<rparr>],
       summary = \<lparr> totalIssues = 1, autoFixed = 1, needsManualReview = 0 \<rparr> \<rparr>"

lemma run_scenarioE: "repairHtml host0 scenarioE JUndefined = Inr resultE"
  by (simp add: string_defs regex_defs helper_defs pass_defs scenarioE_def resultE_def
      cong: let_weak_cong)

text \<open>
  C1 (the code does not do what the claim says). On Scenario E the link pass takes the
  branch for a blank target with a title that lacks the new-window words and records one
  \<^verbatim>\<open>link-new-window\<close> issue marked as fixed, but the text it returns is the input: the
  title is still \<open>T\<close>, the hint is nowhere in the output, and the issue's fixed snippet is
  the original snippet. \<^verbatim>\<open>addOrUpdateAttr\<close> leaves a non-empty title alone.
\<close>

theorem C1_scenarioE_title_not_rewritten:
  "(case repairHtml host0 scenarioE JUndefined of
      Inl e \<Rightarrow> False
    | Inr r \<Rightarrow>
        repairedHtml r = scenarioE
        \<and> getAttr (repairedHtml r) (asc ''title'') = Some [35498, 26126]
        \<and> includes_str (repairedHtml r) ph_newWindowHint = False
        \<and> map ruleId (issues r) = [asc ''link-new-window'']
        \<and> map issue.autoFixed (issues r) = [True]
        \<and> map fixedSnippet (issues r) = [Some scenarioE])"
  unfolding run_scenarioE sum.case
  by (simp add: resultE_def newWindowIssue_def createIssue_def scenarioE_def
      getAttr_def attrRe_def ph_newWindowHint_def string_defs)


subsection \<open>Scenario D of the specification\<close>

text \<open>\<^verbatim>\<open><th>Name</th>\<close> without configuration: the header cell gets \<^verbatim>\<open>scope="col"\<close>.\<close>

definition scenarioD :: jstring where
  "scenarioD = asc ''<th>Name</th>''"

definition resultD :: repairResult where
  "resultD =
     \<lparr> originalHtml = scenarioD,
       repairedHtml = asc ''<th scope='' @ [34] @ asc ''col'' @ [34] @ asc ''>Name</th>'',
       issues = [(createIssue (asc ''th-scope'') (asc ''1.3.1'') (asc ''HM1310101C'') LevelA
                    msg_th_scope (asc ''<th>'')
                    (Some (asc ''<th scope='' @ [34] @ asc ''col'' @ [34] @ asc ''>'')) True False
                    (Some sug_th_scope))
                   \<lparr> startOffset := 0, endOffset := 4, line := 1, column := 1 \<rparr>],
       summary = \<lparr> totalIssues = 1, autoFixed = 1, needsManualReview = 0 \<rparr> \<rparr>"

lemma run_scenarioD: "repairHtml host0 scenarioD JUndefined = Inr resultD"
  by (simp add: string_defs regex_defs helper_defs pass_defs scenarioD_def resultD_def
      cong: let_weak_cong)

section \<open>The result record\<close>

text \<open>
  C10. Whenever \<^verbatim>\<open>repairHtml\<close> returns, \<^verbatim>\<open>originalHtml\<close> is the input as it was given,
  \<^verbatim>\<open>summary.totalIssues\<close> is the number of issues, \<^verbatim>\<open>summary.autoFixed\<close> the number of
  issues with \<^verbatim>\<open>autoFixed\<close> set and \<^verbatim>\<open>summary.needsManualReview\<close> the number of issues
  with \<^verbatim>\<open>needsManualReview\<close> set.
\<close>

theorem C10_result_summary:
  assumes "repairHtml h html config = Inr r"
  shows "originalHtml r = html
    \<and> totalIssues (summary r) = length (issues r)
    \<and> summary.autoFixed (summary r) = length (filter issue.autoFixed (issues r))
    \<and> summary.needsManualReview (summary r) = length (filter issue.needsManualReview (issues r))"
  using assms by (auto simp: repairHtml_def split: sum.splits prod.splits)

theorem C10_result_summary_witness:
  "repairHtml host0 scenarioD JUndefined = Inr resultD
   \<and> originalHtml resultD = scenarioD
   \<and> totalIssues (summary resultD) = length (issues resultD)
   \<and> summary.autoFixed (summary resultD) = length (filter issue.autoFixed (issues resultD))
   \<and> summary.needsManualReview (summary resultD)
       = length (filter issue.needsManualReview (issues resultD))"
  using C10_result_summary[OF run_scenarioD] run_scenarioD by simp


section \<open>Concrete runs for the claims above\<close>

text \<open>A located issue: the issue as created, with its four location fields set.\<close>

definition locatedAt :: "nat \<Rightarrow> nat \<Rightarrow> nat \<Rightarrow> nat \<Rightarrow> issue \<Rightarrow> issue" where
  "locatedAt s e l c i = i\<lparr> startOffset := s, endOffset := e, line := l, column := c \<rparr>"

definition thScopeIssue :: issue where
  "thScopeIssue =
     createIssue (asc ''th-scope'') (asc ''1.3.1'') (asc ''HM1310101C'') LevelA msg_th_scope
       (asc ''<th>'') (Some (asc ''<th scope='' @ [34] @ asc ''col'' @ [34] @ asc ''>'')) True False
       (Some sug_th_scope)"

definition skipLinkIssue :: issue where
  "skipLinkIssue =
     createIssue (asc ''skip-link'') (asc ''2.4.1'') (asc ''HM1240101C'') LevelA msg_skip_link
       (asc ''(document)'') None False True (Some sug_skip_link)"

theorem C8_autoFixed_has_fixedSnippet_witness:
  "repairHtml host0 scenarioD JUndefined = Inr resultD
   \<and> hd (issues resultD) \<in> set (issues resultD)
   \<and> issue.autoFixed (hd (issues resultD))
   \<and> fixedSnippet (hd (issues resultD)) \<noteq> None"
  using C8_autoFixed_has_fixedSnippet[OF run_scenarioD, of "hd (issues resultD)"] run_scenarioD
  by (simp add: resultD_def createIssue_def)

subsection \<open>A header cell on the second line, and a \<^verbatim>\<open>nav\<close>\<close>

text \<open>The text \<^verbatim>\<open>a\<close>, a newline, a blank and \<^verbatim>\<open><th>x</th><nav>\<close>.\<close>

definition twoLines :: jstring where
  "twoLines = asc ''a'' @ [10] @ asc '' <th>x</th><nav>''"

definition resultTwoLines :: repairResult where
  "resultTwoLines =
     \<lparr> originalHtml = twoLines,
       repairedHtml = asc ''a'' @ [10] @ asc '' <th scope='' @ [34] @ asc ''col'' @ [34] @ asc ''>x</th><nav>'',
       issues = [locatedAt 3 7 2 2 thScopeIssue, skipLinkIssue],
       summary = \<lparr> totalIssues = 2, autoFixed = 1, needsManualReview = 1 \<rparr> \<rparr>"

lemma run_twoLines: "repairHtml host0 twoLines JUndefined = Inr resultTwoLines"
  by (simp add: string_defs regex_defs helper_defs pass_defs twoLines_def resultTwoLines_def
      locatedAt_def thScopeIssue_def skipLinkIssue_def cong: let_weak_cong)

lemma first_th_twoLines: "firstOccurrence twoLines (asc ''<th>'') 3"
  by (simp add: firstOccurrence_def occursAt_def twoLines_def asc_def numeral_3_eq_3 less_Suc_eq)

theorem C9_locations_witness:
  "repairHtml host0 twoLines JUndefined = Inr resultTwoLines
   \<and> issues resultTwoLines = [locatedAt 3 7 2 2 thScopeIssue, skipLinkIssue]
   \<and> originalSnippet (locatedAt 3 7 2 2 thScopeIssue) = asc ''<th>''
   \<and> firstOccurrence twoLines (asc ''<th>'') 3
   \<and> startOffset (locatedAt 3 7 2 2 thScopeIssue) = 3
   \<and> endOffset (locatedAt 3 7 2 2 thScopeIssue) = 3 + length (asc ''<th>'')
   \<and> line (locatedAt 3 7 2 2 thScopeIssue) = 1 + count_list (take 3 twoLines) 10
   \<and> line (locatedAt 3 7 2 2 thScopeIssue) = 2
   \<and> column (locatedAt 3 7 2 2 thScopeIssue)
       = 1 + length (takeWhile (\<lambda>x. x \<noteq> 10) (rev (take 3 twoLines)))
   \<and> column (locatedAt 3 7 2 2 thScopeIssue) = 2
   \<and> originalSnippet skipLinkIssue = asc ''(document)''
   \<and> startOffset skipLinkIssue = 0 \<and> endOffset skipLinkIssue = 0
   \<and> line skipLinkIssue = 0 \<and> column skipLinkIssue = 0"
  using C9_locations[OF run_twoLines, of "locatedAt 3 7 2 2 thScopeIssue" 3]
    C9_locations[OF run_twoLines, of skipLinkIssue 0] run_twoLines first_th_twoLines
  by (simp add: resultTwoLines_def locatedAt_def thScopeIssue_def skipLinkIssue_def createIssue_def
      twoLines_def asc_def)


subsection \<open>Rule switches\<close>















subsection \<open>Fake buttons\<close>

text \<open>
  A \<^verbatim>\<open>div\<close> with \<^verbatim>\<open>onclick\<close>, \<^verbatim>\<open>role="button"\<close> and \<^verbatim>\<open>tabindex=0\<close>, then a \<^verbatim>\<open>span\<close> with
  \<^verbatim>\<open>onclick\<close> alone: the first passes the test, the second gets the issue.
\<close>

definition readyDiv :: jstring where
  "readyDiv = asc ''<div onclick=f() role='' @ [34] @ asc ''button'' @ [34] @ asc '' tabindex=0>''"

definition bareSpan :: jstring where
  "bareSpan = asc ''<span onclick=g()>''"

definition resultFake :: repairResult where
  "resultFake =
     \<lparr> originalHtml = readyDiv @ bareSpan, repairedHtml = readyDiv @ bareSpan,
       issues = [locatedAt 42 60 1 43 (fakeIssue bareSpan)],
       summary = \<lparr> totalIssues = 1, autoFixed = 0, needsManualReview = 1 \<rparr> \<rparr>"

lemma run_fake: "repairHtml host0 (readyDiv @ bareSpan) JUndefined = Inr resultFake"
  by (simp add: string_defs regex_defs helper_defs pass_defs readyDiv_def bareSpan_def
      resultFake_def locatedAt_def cong: let_weak_cong)

lemma tagsFound_fake: "tagsFound (readyDiv @ bareSpan) = [readyDiv, bareSpan]"
  by (simp add: tagsFound_def matchesFrom_def scan.simps fakeBtnRe_def readyDiv_def bareSpan_def
      string_defs cong: let_weak_cong)

lemma keyboardReady_fake: "keyboardReady readyDiv" "\<not> keyboardReady bareSpan"
  by (simp_all add: keyboardReady_def test_def roleRe_def tabindexRe_def readyDiv_def bareSpan_def
      string_defs)

lemma boundaryFree_fake: "boundaryFree readyDiv" "boundaryFree bareSpan"
  by (simp_all add: boundaryFree_def test_def tabindexRe_def tabindexZeroRe_def readyDiv_def
      bareSpan_def string_defs)

lemma attributes_fake:
  "hasRoleButton readyDiv" "hasTabindexZero readyDiv" "\<not> hasRoleButton bareSpan"
  by (simp_all add: hasRoleButton_def hasTabindexZero_def test_def roleRe_def tabindexZeroRe_def
      readyDiv_def bareSpan_def string_defs)

theorem C5_fake_button_issues_witness:
  "repairHtml host0 (readyDiv @ bareSpan) JUndefined = Inr resultFake
   \<and> ruleEnabled JUndefined (asc ''fake-button'')
   \<and> tagsFound (repairedHtml resultFake) = [readyDiv, bareSpan]
   \<and> list_all boundaryFree (tagsFound (repairedHtml resultFake))
   \<and> hasRoleButton readyDiv \<and> hasTabindexZero readyDiv \<and> hasRoleButton bareSpan = False
   \<and> map originalSnippet (filter (\<lambda>i. ruleId i = asc ''fake-button'') (issues resultFake)) = [bareSpan]
   \<and> length (filter (\<lambda>i. ruleId i = asc ''fake-button'') (issues resultFake)) \<le> 10"
  using C5_fake_button_issues[OF run_fake] run_fake tagsFound_fake boundaryFree_fake
    attributes_fake
  by (simp add: resultFake_def ruleEnabled_def)

text \<open>
  Against C5 as it is stated: a \<^verbatim>\<open>div\<close> with \<^verbatim>\<open>onclick\<close> and \<^verbatim>\<open>role="button"\<close>, one of the
  two attributes, gets an issue.
\<close>

definition roleOnlyDiv :: jstring where
  "roleOnlyDiv = asc ''<div onclick=f() role='' @ [34] @ asc ''button'' @ [34] @ asc ''>''"

theorem C5_counterexample:
  "test roleRe True roleOnlyDiv
   \<and> repairHtml host0 roleOnlyDiv JUndefined
       = Inr \<lparr> originalHtml = roleOnlyDiv, repairedHtml = roleOnlyDiv,
               issues = [locatedAt 0 31 1 1 (fakeIssue roleOnlyDiv)],
               summary = \<lparr> totalIssues = 1, autoFixed = 0, needsManualReview = 1 \<rparr> \<rparr>"
  by (simp add: string_defs regex_defs helper_defs pass_defs roleOnlyDiv_def locatedAt_def
      cong: let_weak_cong)

text \<open>
  What the theorem leaves out. The pattern for \<^verbatim>\<open>tabindex\<close> ends in \<^verbatim>\<open>\b\<close>. After \<^verbatim>\<open>"0"\<close> a
  word boundary needs a word character to follow the closing quote, so the quoted
  attribute at the end of a tag is not seen: the \<^verbatim>\<open>div\<close> with \<^verbatim>\<open>role="button"\<close> and
  \<^verbatim>\<open>tabindex="0"\<close> has the role and the tab index and does not pass the test of the code.
\<close>

definition quotedReadyDiv :: jstring where
  "quotedReadyDiv = asc ''<div onclick=f() role='' @ [34] @ asc ''button'' @ [34]
     @ asc '' tabindex='' @ [34] @ asc ''0'' @ [34] @ asc ''>''"

lemma quoted_tabindex_unseen:
  "hasRoleButton quotedReadyDiv" "hasTabindexZero quotedReadyDiv"
  "\<not> test tabindexRe True quotedReadyDiv" "\<not> keyboardReady quotedReadyDiv"
  "\<not> boundaryFree quotedReadyDiv"
  by (simp_all add: keyboardReady_def hasRoleButton_def hasTabindexZero_def boundaryFree_def
      test_def roleRe_def tabindexRe_def tabindexZeroRe_def quotedReadyDiv_def string_defs)

subsection \<open>Placeholders that are not strings\<close>

text \<open>\<^verbatim>\<open><img src=x>\<close> and the text \<^verbatim>\<open>a < b\<close>, with
  \<^verbatim>\<open>{basePx: 20, placeholders: {imgAlt: "logo"}}\<close>.\<close>

definition logoConfig :: jsval where
  "logoConfig = JObj [(asc ''basePx'', JNum (asc ''20'')),
     (asc ''placeholders'', JObj [(asc ''imgAlt'', JStr (asc ''logo''))])]"

lemma typed_logoConfig: "typedConfig logoConfig"
  by (simp add: typedConfig_def logoConfig_def pref_def basePxOf_def nullish_def asc_def)

lemma unmatched_text: "list_all (\<lambda>p. \<not> test p True (asc ''a < b'')) rewritePatterns"
  by (simp add: rewritePatterns_def string_defs regex_defs pass_defs)

theorem C7_returns_witness:
  "typedConfig logoConfig
   \<and> (\<exists>r. repairHtml host0 (asc ''<img src=x>'') logoConfig = Inr r)
   \<and> list_all (\<lambda>p. \<not> test p True (asc ''a < b'')) rewritePatterns
   \<and> (\<exists>r. repairHtml host0 (asc ''a < b'') logoConfig = Inr r \<and> repairedHtml r = asc ''a < b'')
   \<and> framePass logoConfig (asc ''a < b'', []) = Inr (asc ''a < b'', [])"
proof -
  note a = C7_returns[where config = logoConfig and h = host0 and html = "asc ''<img src=x>''",
      THEN conjunct1, rule_format, OF typed_logoConfig]
  note b = C7_returns[where config = logoConfig and h = host0 and html = "asc ''a < b''",
      THEN conjunct1, rule_format, OF typed_logoConfig]
  note c = C7_returns[where config = logoConfig and st = "(asc ''a < b'', [])",
      THEN conjunct2, THEN conjunct1, rule_format]
  from unmatched_text have "\<not> test frameRe True (asc ''a < b'')"
    by (simp add: rewritePatterns_def)
  then have "framePass logoConfig (asc ''a < b'', []) = Inr (asc ''a < b'', [])"
    using c by simp
  with a b typed_logoConfig unmatched_text show ?thesis by blast
qed

text \<open>
  Against C7 as it is stated: \<^verbatim>\<open><iframe>\<close> with \<^verbatim>\<open>{placeholders: {iframeTitle: true}}\<close>.
  The placeholder is truthy, so it is taken, and \<^verbatim>\<open>placeholder.includes\<close> is not a
  function: the call throws a TypeError. And \<^verbatim>\<open><p style="font-size:12px">\<close> with
  \<^verbatim>\<open>{basePx: {toString: 1}}\<close>: the division \<^verbatim>\<open>px / basePx\<close> cannot convert the object.
\<close>

definition trueTitleConfig :: jsval where
  "trueTitleConfig = JObj [(asc ''placeholders'', JObj [(asc ''iframeTitle'', JBool True)])]"

definition objectBaseConfig :: jsval where
  "objectBaseConfig = JObj [(asc ''basePx'', JObj [(asc ''toString'', JNum (asc ''1''))])]"

definition sizedParagraph :: jstring where
  "sizedParagraph = asc ''<p style='' @ [34] @ asc ''font-size:12px'' @ [34] @ asc ''>''"

theorem C7_counterexample:
  "repairHtml host0 (asc ''<iframe>'') trueTitleConfig = Inl TypeError
   \<and> repairHtml host0 sizedParagraph objectBaseConfig = Inl TypeError"
proof -
  have 1: "repairHtml host0 (asc ''<iframe>'') trueTitleConfig = Inl TypeError"
    by (simp add: string_defs regex_defs helper_defs pass_defs trueTitleConfig_def
        cong: let_weak_cong)
  have 2: "repairHtml host0 sizedParagraph objectBaseConfig = Inl TypeError"
    by (simp add: string_defs regex_defs helper_defs pass_defs objectBaseConfig_def
        sizedParagraph_def cong: let_weak_cong)
  show ?thesis by (intro conjI) (rule 1 2)+
qed


subsection \<open>Padding\<close>

text \<open>Three equal sides, and four sides of which one is written \<^verbatim>\<open>1.0em\<close>.\<close>

definition threeSides :: jstring where
  "threeSides = asc ''padding-top:1em;padding-right:1em;padding-bottom:1em''"

definition fourSides :: jstring where
  "fourSides = asc ''padding-top:1em;padding-right:1.0em;padding-bottom:1em;padding-left:1em''"

definition threeDecls :: "decl list" where
  "threeDecls = [(asc ''padding-top'', asc ''1em''), (asc ''padding-right'', asc ''1em''),
     (asc ''padding-bottom'', asc ''1em'')]"

definition fourDecls :: "decl list" where
  "fourDecls = [(asc ''padding-top'', asc ''1em''), (asc ''padding-right'', asc ''1.0em''),
     (asc ''padding-bottom'', asc ''1em''), (asc ''padding-left'', asc ''1em'')]"

lemma decls_threeSides:
  "convertedDecls host0 threeSides (JNum (asc ''16'')) (JBool True) = Inr threeDecls"
  by (simp add: convertedDecls_def threeSides_def threeDecls_def string_defs regex_defs
      helper_defs host0_def asciiLower_def cong: let_weak_cong)

lemma decls_fourSides:
  "convertedDecls host0 fourSides (JNum (asc ''16'')) (JBool True) = Inr fourDecls"
  by (simp add: convertedDecls_def fourSides_def fourDecls_def string_defs regex_defs
      helper_defs host0_def asciiLower_def cong: let_weak_cong)

lemma onlySides_decls: "onlySides threeDecls" "onlySides fourDecls"
  by (simp_all add: onlySides_def isSide_def padKeys_def threeDecls_def fourDecls_def asc_def)

theorem C3_padding_compaction_witness:
  "convertedDecls host0 threeSides (JNum (asc ''16'')) (JBool True) = Inr threeDecls
   \<and> onlySides threeDecls
   \<and> (\<exists>changed. normalizeInlineStyle host0 threeSides (JNum (asc ''16'')) (JBool True)
       = Inr (asc ''padding:1em'', changed))
   \<and> convertedDecls host0 fourSides (JNum (asc ''16'')) (JBool True) = Inr fourDecls
   \<and> onlySides fourDecls
   \<and> (\<exists>changed. normalizeInlineStyle host0 fourSides (JNum (asc ''16'')) (JBool True)
       = Inr (asc ''padding-top:1em; padding-right:1.0em; padding-bottom:1em; padding-left:1em'',
              changed))"
  using C3_padding_compaction[OF decls_threeSides onlySides_decls(1)]
    C3_padding_compaction[OF decls_fourSides onlySides_decls(2)]
    decls_threeSides decls_fourSides onlySides_decls
  by (simp add: compactable_def compacted_def presentSides_def sideValue_def padKeys_def
      isSide_def renderDecls_def List.map_filter_def threeDecls_def fourDecls_def asc_def)

text \<open>
  Against C3 as it is stated. With three of the four sides the declarations are
  collapsed (there is no \<^verbatim>\<open>padding-left\<close> in the input); with all four sides, numerically
  equal but written \<^verbatim>\<open>1em\<close> and \<^verbatim>\<open>1.0em\<close>, they are not.
\<close>

theorem C3_counterexample:
  "normalizeInlineStyle host0 (asc ''padding-top:1em;padding-right:1em;padding-bottom:1em'')
       (JNum (asc ''16'')) (JBool True)
     = Inr (asc ''padding:1em'', True)
   \<and> normalizeInlineStyle host0
       (asc ''padding-top:1em;padding-right:1.0em;padding-bottom:1em;padding-left:1em'')
       (JNum (asc ''16'')) (JBool True)
     = Inr (asc ''padding-top:1em; padding-right:1.0em; padding-bottom:1em; padding-left:1em'', False)"
proof -
  have 1: "normalizeInlineStyle host0 (asc ''padding-top:1em;padding-right:1em;padding-bottom:1em'')
      (JNum (asc ''16'')) (JBool True) = Inr (asc ''padding:1em'', True)"
    by (simp add: string_defs regex_defs helper_defs host0_def asciiLower_def
        cong: let_weak_cong)
  have 2: "normalizeInlineStyle host0
      (asc ''padding-top:1em;padding-right:1.0em;padding-bottom:1em;padding-left:1em'')
      (JNum (asc ''16'')) (JBool True)
      = Inr (asc ''padding-top:1em; padding-right:1.0em; padding-bottom:1em; padding-left:1em'', False)"
    by (simp add: string_defs regex_defs helper_defs host0_def asciiLower_def
        cong: let_weak_cong)
  show ?thesis by (intro conjI) (rule 1 2)+
qed

text \<open>
  What the theorem leaves out: a property that starts with \<^verbatim>\<open>padding-\<close> and is not one of
  the four sides is dropped with them (the loop tests \<^verbatim>\<open>startsWith("padding-")\<close>). Here
  \<^verbatim>\<open>padding-inline-start:3em\<close> is lost.
\<close>

lemma other_padding_dropped:
  "normalizeInlineStyle host0
       (asc ''padding-top:1em;padding-right:1em;padding-bottom:1em;padding-inline-start:3em'')
       (JNum (asc ''16'')) (JBool True)
     = Inr (asc ''padding:1em'', True)"
  by (simp add: string_defs regex_defs helper_defs host0_def asciiLower_def cong: let_weak_cong)

text \<open>
  The default parameters: called without \<^verbatim>\<open>basePx\<close> and \<^verbatim>\<open>removeWidth\<close>, the function
  drops \<^verbatim>\<open>width\<close>. And the inline-style pass keeps the single quotes of an attribute that
  starts with \<^verbatim>\<open>style='\<close>.
\<close>

lemma default_parameters:
  "normalizeInlineStyle host0 (asc ''width:1em;color:red'') JUndefined JUndefined
     = Inr (asc ''color:red'', True)"
  by (simp add: string_defs regex_defs helper_defs host0_def asciiLower_def cong: let_weak_cong)

lemma single_quotes_kept:
  "inlineStylePass host0 JUndefined (asc ''<p style='' @ [39] @ asc ''width:1em;color:red'' @ [39] @ asc ''>'', [])
     = Inr (asc ''<p style='' @ [39] @ asc ''color:red'' @ [39] @ asc ''>'',
            [createIssue (asc ''css-relative-units'') (asc ''1.4.4'') (asc ''CS2140401C'') LevelAA
               msg_css_units (asc ''style='' @ [34] @ asc ''width:1em;color:red'' @ [34])
               (Some (asc ''style='' @ [34] @ asc ''color:red'' @ [34])) True False
               (Some sug_css_units)])"
  by (simp add: string_defs regex_defs helper_defs pass_defs cong: let_weak_cong)

subsection \<open>Running the engine on its own output\<close>

text \<open>The rules that recorded a fix in a result.\<close>

definition fixedRules :: "repairResult \<Rightarrow> jstring list" where
  "fixedRules r = map ruleId (filter issue.autoFixed (issues r))"

text \<open>A row of two cells, and what one and two runs make of it.\<close>

definition headerCell :: "jstring \<Rightarrow> jstring" where
  "headerCell x = asc ''<th scope='' @ [34] @ asc ''row'' @ [34] @ asc ''>'' @ x @ asc ''</th>''"

definition twoCells :: jstring where
  "twoCells = asc ''<tr><td>a</td><td>b</td></tr>''"

definition twoCellsOnce :: jstring where
  "twoCellsOnce = asc ''<tr>'' @ headerCell (asc ''a'') @ asc ''<td>b</td></tr>''"

definition twoCellsTwice :: jstring where
  "twoCellsTwice = asc ''<tr>'' @ headerCell (asc ''a'') @ headerCell (asc ''b'') @ asc ''</tr>''"

definition rowHeaderIssue :: "jstring \<Rightarrow> jstring \<Rightarrow> issue" where
  "rowHeaderIssue cell x =
     createIssue (asc ''table-row-header'') (asc ''1.3.1'') (asc ''HM1310101C'') LevelA
       msg_table_row_header cell (Some (headerCell x)) True False (Some sug_table_row_header)"

lemma run_twoCells:
  "repairHtml host0 twoCells JUndefined
     = Inr \<lparr> originalHtml = twoCells, repairedHtml = twoCellsOnce,
             issues = [locatedAt 4 14 1 5 (rowHeaderIssue (asc ''<td>a</td>'') (asc ''a''))],
             summary = \<lparr> totalIssues = 1, autoFixed = 1, needsManualReview = 0 \<rparr> \<rparr>"
  by (simp add: string_defs regex_defs helper_defs pass_defs twoCells_def twoCellsOnce_def
      headerCell_def locatedAt_def rowHeaderIssue_def cong: let_weak_cong)

lemma run_twoCellsOnce:
  "repairHtml host0 twoCellsOnce JUndefined
     = Inr \<lparr> originalHtml = twoCellsOnce, repairedHtml = twoCellsTwice,
             issues = [locatedAt 26 36 1 27 (rowHeaderIssue (asc ''<td>b</td>'') (asc ''b''))],
             summary = \<lparr> totalIssues = 1, autoFixed = 1, needsManualReview = 0 \<rparr> \<rparr>"
  by (simp add: string_defs regex_defs helper_defs pass_defs twoCellsOnce_def twoCellsTwice_def
      headerCell_def locatedAt_def rowHeaderIssue_def cong: let_weak_cong)

text \<open>
  A row that starts with two images with an empty \<^verbatim>\<open>alt\<close>, followed by a cell whose link
  text ends in a dollar sign and a backquote. The row pass hands the new cell to
  \<^verbatim>\<open>tr.replace(firstTd, th)\<close> as a replacement string, in which these two characters stand
  for the text before the match: the start of the row is copied into the link.
\<close>

definition emptyAltImg :: jstring where
  "emptyAltImg = asc ''<img alt='' @ [34, 34] @ asc ''>''"

definition dollarLink :: jstring where
  "dollarLink = asc ''<a href=/x title=t>t $`</a>''"

definition dollarRow :: jstring where
  "dollarRow = asc ''<tr>'' @ emptyAltImg @ emptyAltImg @ asc ''<td>'' @ dollarLink @ asc ''</td></tr>''"

definition dollarRowOnce :: jstring where
  "dollarRowOnce = asc ''<tr>'' @ emptyAltImg @ emptyAltImg
     @ headerCell (asc ''<a href=/x title=t>t <tr>'' @ emptyAltImg @ emptyAltImg @ asc ''</a>'')
     @ asc ''</tr>''"

definition linkImgIssue :: issue where
  "linkImgIssue =
     createIssue (asc ''img-alt'') (asc ''1.1.1'') (asc ''HM1110101C'') LevelA msg_img_alt_link
       emptyAltImg (Some (asc ''<img alt='' @ [34] @ ph_imgAlt @ [34] @ asc ''>'')) True True
       (Some sug_img_alt_link)"

lemma run_dollarRow:
  "repairHtml host0 dollarRow JUndefined
     = Inr \<lparr> originalHtml = dollarRow, repairedHtml = dollarRowOnce,
             issues = [locatedAt 28 64 1 29
                         (rowHeaderIssue (asc ''<td>'' @ dollarLink @ asc ''</td>'') dollarLink)],
             summary = \<lparr> totalIssues = 1, autoFixed = 1, needsManualReview = 0 \<rparr> \<rparr>"
  by (simp add: string_defs regex_defs helper_defs pass_defs dollarRow_def dollarRowOnce_def
      emptyAltImg_def dollarLink_def headerCell_def locatedAt_def rowHeaderIssue_def
      cong: let_weak_cong)

lemma run_dollarRowOnce:
  "repairHtml host0 dollarRowOnce JUndefined
     = Inr \<lparr> originalHtml = dollarRowOnce, repairedHtml = dollarRowOnce,
             issues = [locatedAt 4 16 1 5 linkImgIssue, locatedAt 4 16 1 5 linkImgIssue],
             summary = \<lparr> totalIssues = 2, autoFixed = 2, needsManualReview = 2 \<rparr> \<rparr>"
  by (simp add: string_defs regex_defs helper_defs pass_defs dollarRowOnce_def
      emptyAltImg_def headerCell_def locatedAt_def linkImgIssue_def ph_imgAlt_def
      cong: let_weak_cong)

text \<open>
  C4 (the code does not do what the claim says). On Scenario E the repaired text is the
  input, so the second run is the first run again: the rule \<^verbatim>\<open>link-new-window\<close>, which
  recorded an \<^verbatim>\<open>autoFixed\<close> issue in the first run, records it in the second run too. On
  the row of two cells the rule \<^verbatim>\<open>table-row-header\<close> turns the first cell into a header
  in the first run and the second cell in the second run. On the row with the dollar sign
  the first run records one fix and the second run two.
\<close>

theorem C4_second_run_fires_again:
  "(case repairHtml host0 scenarioE JUndefined of
      Inl e \<Rightarrow> False
    | Inr r \<Rightarrow>
        (case repairHtml host0 (repairedHtml r) JUndefined of
           Inl e \<Rightarrow> False
         | Inr r' \<Rightarrow>
             fixedRules r = [asc ''link-new-window'']
             \<and> fixedRules r' = [asc ''link-new-window'']))
   \<and> (case repairHtml host0 twoCells JUndefined of
      Inl e \<Rightarrow> False
    | Inr r \<Rightarrow>
        (case repairHtml host0 (repairedHtml r) JUndefined of
           Inl e \<Rightarrow> False
         | Inr r' \<Rightarrow>
             fixedRules r = [asc ''table-row-header'']
             \<and> fixedRules r' = [asc ''table-row-header'']))
   \<and> (case repairHtml host0 dollarRow JUndefined of
      Inl e \<Rightarrow> False
    | Inr r \<Rightarrow>
        (case repairHtml host0 (repairedHtml r) JUndefined of
           Inl e \<Rightarrow> False
         | Inr r' \<Rightarrow>
             summary.autoFixed (summary r) = 1 \<and> summary.autoFixed (summary r') = 2))"
proof -
  have rep: "repairedHtml resultE = scenarioE" by (simp add: resultE_def)
  have 1: "(case repairHtml host0 scenarioE JUndefined of
      Inl e \<Rightarrow> False
    | Inr r \<Rightarrow>
        (case repairHtml host0 (repairedHtml r) JUndefined of
           Inl e \<Rightarrow> False
         | Inr r' \<Rightarrow>
             fixedRules r = [asc ''link-new-window'']
             \<and> fixedRules r' = [asc ''link-new-window'']))"
    unfolding run_scenarioE sum.case rep
    by (simp add: resultE_def newWindowIssue_def createIssue_def fixedRules_def)
  have 2: "(case repairHtml host0 twoCells JUndefined of
      Inl e \<Rightarrow> False
    | Inr r \<Rightarrow>
        (case repairHtml host0 (repairedHtml r) JUndefined of
           Inl e \<Rightarrow> False
         | Inr r' \<Rightarrow>
             fixedRules r = [asc ''table-row-header'']
             \<and> fixedRules r' = [asc ''table-row-header'']))"
    unfolding run_twoCells sum.case repairResult.simps run_twoCellsOnce
    by (simp add: fixedRules_def locatedAt_def rowHeaderIssue_def createIssue_def)
  have 3: "(case repairHtml host0 dollarRow JUndefined of
      Inl e \<Rightarrow> False
    | Inr r \<Rightarrow>
        (case repairHtml host0 (repairedHtml r) JUndefined of
           Inl e \<Rightarrow> False
         | Inr r' \<Rightarrow>
             summary.autoFixed (summary r) = 1 \<and> summary.autoFixed (summary r') = 2))"
    unfolding run_dollarRow sum.case repairResult.simps run_dollarRowOnce
    by simp
  show ?thesis by (intro conjI) (rule 1 2 3)+
qed

subsection \<open>An attribute value made of a quote\<close>

text \<open>
  C6 (the code does not do what the claim says). In \<^verbatim>\<open><a title=">\<close> the attribute
  \<^verbatim>\<open>title\<close> has the unquoted value \<^verbatim>\<open>"\<close>, as \<^verbatim>\<open>getAttr\<close> reads it: one character, not
  white space. \<^verbatim>\<open>addOrUpdateAttr\<close> strips the quote before it tests for emptiness and
  overwrites the value.
\<close>

definition quoteTag :: jstring where
  "quoteTag = asc ''<a title='' @ [34, 62]"

theorem C6_quote_value_overwritten:
  "getAttr quoteTag (asc ''title'') = Some [34]
   \<and> js_trim [34] = [34]
   \<and> addOrUpdateAttr quoteTag (asc ''title'') (JStr (asc ''X''))
       = Inr (asc ''<a title='' @ [34] @ asc ''X'' @ [34, 62])"
  by (simp add: quoteTag_def string_defs regex_defs helper_defs cong: let_weak_cong)

end
